(* ===== verification/Poker_Prelude.thy ===== *)
theory Poker_Prelude
  imports Main "HOL-Library.Multiset" "HOL-Library.List_Lexorder" "HOL-Library.Product_Lexorder"
begin

text \<open>
  Shared vocabulary of the development: the names of the value types the model uses for
  JavaScript values, the collections of rules the component theories share, and generic
  lemmas on lists and association lists that several components need.
\<close>

section \<open>Types of JavaScript values used by the model\<close>

text \<open>
  A character read from a string by \<^verbatim>\<open>s[i]\<close> is \<open>char option\<close>: \<open>None\<close> is
  JavaScript's \<^verbatim>\<open>undefined\<close> (an index out of range). A JavaScript number that
  arises in the program is an integer or \<^verbatim>\<open>NaN\<close>: \<open>int option\<close> with \<open>None\<close>
  for \<^verbatim>\<open>NaN\<close>. A plain object used as a tally is an association list from its keys
  to counts, in insertion order.
\<close>

type_synonym js_char = "char option"
type_synonym js_num = "int option"
type_synonym 'k tally = "('k \<times> nat) list"

named_theorems js_simps "evaluation rules of the JavaScript runtime model"
named_theorems hand_simps "rules that evaluate the hand queries on a well-formed hand"

section \<open>Generic lemmas\<close>

lemma length_remdups_eq_iff_distinct [simp]:
  "length (remdups xs) = length xs \<longleftrightarrow> distinct xs"
  by (metis distinct_remdups distinct_remdups_id length_remdups_eq)

lemma length_remdups_eq_one_iff:
  "length (remdups xs) = Suc 0 \<longleftrightarrow> xs \<noteq> [] \<and> (\<forall>y \<in> set xs. y = hd xs)"
proof -
  have "length (remdups xs) = card (set xs)" by (simp add: length_remdups_card_conv)
  then show ?thesis
    by (cases xs) (auto simp: card_Suc_eq)
qed

lemma mset_eq_set_eq: "mset xs = mset ys \<Longrightarrow> set xs = set ys"
  by (metis set_mset_mset)

lemma mset_filter_split: "mset (filter P xs) + mset (filter (\<lambda>x. \<not> P x) xs) = mset xs"
  by (induction xs) auto

lemma sum_list_filter_mset: "sum_list (filter P xs) = sum_mset (filter_mset P (mset xs))"
  by (metis mset_filter sum_mset_sum_list)

lemma mset_remdups_eq: "set xs = set ys \<Longrightarrow> mset (remdups xs) = mset (remdups ys)"
  by (simp add: set_eq_iff_mset_eq_distinct [OF distinct_remdups distinct_remdups, symmetric])

lemma mset_rev_remdups_rev: "mset (rev (remdups (rev xs))) = mset (remdups xs)"
  by (simp add: set_eq_iff_mset_eq_distinct [symmetric])

lemma count_list_pos_in_set: "0 < count_list xs x \<Longrightarrow> x \<in> set xs"
  by (induction xs) (auto split: if_splits)

lemma those_eq_Some: "those xs = Some ys \<longleftrightarrow> xs = map Some ys"
  by (induction xs arbitrary: ys) (auto split: option.splits)

lemma remdups_map_inj: "inj f \<Longrightarrow> remdups (map f xs) = map f (remdups xs)"
  by (induction xs) (auto simp: inj_image_mem_iff)

lemma distinct_map_inj: "inj f \<Longrightarrow> distinct (map f xs) \<longleftrightarrow> distinct xs"
  by (simp add: distinct_map inj_on_subset [of f UNIV])

subsection \<open>Sorted lists of integers\<close>

lemma sorted_hd_Min: "sorted ys \<Longrightarrow> ys \<noteq> [] \<Longrightarrow> hd ys = Min (set ys)"
  by (cases ys) (auto intro!: Min_eqI[symmetric])

lemma sorted_last_Max: "sorted ys \<Longrightarrow> ys \<noteq> [] \<Longrightarrow> last ys = Max (set ys)"
proof -
  assume s: "sorted ys" and ne: "ys \<noteq> []"
  then have "ys = butlast ys @ [last ys]" by simp
  with s have "\<forall>y \<in> set ys. y \<le> last ys"
    by (metis sorted_append Un_iff empty_iff empty_set insert_iff list.set(2) order_refl set_append)
  with ne show ?thesis by (auto intro!: Max_eqI[symmetric])
qed

lemma sorted_distinct_span:
  fixes ys :: "int list"
  shows "sorted ys \<Longrightarrow> distinct ys \<Longrightarrow> ys \<noteq> [] \<Longrightarrow> hd ys + int (length ys) - 1 \<le> last ys"
proof (induction ys rule: remdups_adj.induct)
  case 1
  then show ?case by simp
next
  case (2 x)
  then show ?case by simp
next
  case (3 x y zs)
  then have "x < y" by auto
  moreover have "y + int (length zs) \<le> last (y # zs)" using 3 by simp
  ultimately show ?case by simp
qed


subsection \<open>Counts and partitions\<close>

lemma length_le_sum_list: "\<forall>y \<in> set ys. (1::nat) \<le> y \<Longrightarrow> length ys \<le> sum_list ys"
  by (induction ys) auto

text \<open>The sorted lists of positive counts that add up to five: the partitions of five.\<close>

lemma sorted_partitions_five:
  fixes ys :: "nat list"
  assumes s: "sorted ys" and pos: "\<forall>y \<in> set ys. 1 \<le> y" and sum: "sum_list ys = 5"
  shows "ys \<in> {[5], [1, 4], [2, 3], [1, 1, 3], [1, 2, 2], [1, 1, 1, 2], [1, 1, 1, 1, 1]}"
proof -
  have "length ys \<le> 5" using length_le_sum_list [OF pos] sum by simp
  moreover have "0 < length ys" using sum by (cases ys) auto
  ultimately have "length ys = 1 \<or> length ys = 2 \<or> length ys = 3 \<or> length ys = 4 \<or> length ys = 5"
    by presburger
  then consider "length ys = 1" | "length ys = 2" | "length ys = 3" | "length ys = 4" | "length ys = 5"
    by blast
  then show ?thesis
  proof cases
    case 1
    then obtain a where "ys = [a]" by (auto simp: length_Suc_conv numeral_eq_Suc)
    with sum show ?thesis by simp
  next
    case 2
    then obtain a b where "ys = [a, b]" by (auto simp: length_Suc_conv numeral_eq_Suc)
    with s pos sum show ?thesis by (simp; presburger)
  next
    case 3
    then obtain a b c where "ys = [a, b, c]" by (auto simp: length_Suc_conv numeral_eq_Suc)
    with s pos sum show ?thesis by (simp; presburger)
  next
    case 4
    then obtain a b c d where "ys = [a, b, c, d]" by (auto simp: length_Suc_conv numeral_eq_Suc)
    with s pos sum show ?thesis by (simp; presburger)
  next
    case 5
    then obtain a b c d e where "ys = [a, b, c, d, e]" by (auto simp: length_Suc_conv numeral_eq_Suc)
    with s pos sum show ?thesis by (simp; presburger)
  qed
qed

lemma sorted_map_fst: "sorted (ps :: ('a::linorder \<times> 'b::linorder) list) \<Longrightarrow> sorted (map fst ps)"
  by (induction ps) (auto simp: less_eq_prod_def)

lemma count_list_distinct: "distinct xs \<Longrightarrow> x \<in> set xs \<Longrightarrow> count_list xs x = 1"
  by (induction xs) (auto simp: count_list_0_iff)

lemma count_list_inj_map:
  "inj f \<Longrightarrow> (\<forall>v \<in> set (map f xs). count_list (map f xs) v \<noteq> n) \<longleftrightarrow> (\<forall>x \<in> set xs. count_list xs x \<noteq> n)"
  by (auto simp: count_list_map_conv)

lemma distinct_count_list_le_one: "distinct xs \<longleftrightarrow> (\<forall>x \<in> set xs. count_list xs x \<le> 1)"
  by (induction xs) (auto simp: count_list_0_iff)

lemma map_Some_the: "None \<notin> set xs \<Longrightarrow> map Some (map the xs) = xs"
  by (induction xs) auto

end
