(* ===== verification/JS_Runtime.thy ===== *)
theory JS_Runtime
  imports Poker_Prelude
begin

text \<open>
  The parts of the JavaScript runtime that src/index.ts relies on, each modelled at the
  precision the program needs: \<^verbatim>\<open>String.prototype.split(" ")\<close>, indexing a string
  (\<^verbatim>\<open>hand[0]\<close>), \<^verbatim>\<open>Array.prototype.includes\<close>, the counting idiom
  \<^verbatim>\<open>valueCounts[value] = (valueCounts[value] || 0) + 1\<close> on a plain object and the
  order in which \<^verbatim>\<open>for (let k in obj)\<close> visits its keys, \<^verbatim>\<open>new Set(xs).size\<close>,
  \<^verbatim>\<open>parseInt\<close> of a one-character string, \<^verbatim>\<open>Array.prototype.sort\<close> with the
  numeric comparator \<^verbatim>\<open>(a, b) => a - b\<close>, and \<^verbatim>\<open>Math.max\<close> / \<^verbatim>\<open>Math.min\<close>.
\<close>

section \<open>Exceptions\<close>

text \<open>\<^verbatim>\<open>throw new Error(msg)\<close>: the program throws one kind of exception, with a message.\<close>

datatype js_error = Error string

section \<open>Strings\<close>

text \<open>
  \<^verbatim>\<open>s.split(" ")\<close> cuts at every single space: two spaces in a row give an empty
  token, and the empty string gives one empty token.
\<close>

fun js_split :: "string \<Rightarrow> string list" where
  "js_split [] = [[]]"
| "js_split (c # cs) =
     (if c = CHR '' '' then [] # js_split cs
      else (case js_split cs of [] \<Rightarrow> [[c]] | w # ws \<Rightarrow> (c # w) # ws))"

text \<open>The inverse direction: tokens joined by single spaces (\<^verbatim>\<open>xs.join(" ")\<close>).\<close>

fun js_join :: "string list \<Rightarrow> string" where
  "js_join [] = []"
| "js_join [w] = w"
| "js_join (w # ws) = w @ CHR '' '' # js_join ws"

text \<open>\<^verbatim>\<open>s[i]\<close>: the character at \<open>i\<close>, or \<^verbatim>\<open>undefined\<close> past the end.\<close>

definition js_index :: "string \<Rightarrow> nat \<Rightarrow> js_char" where
  "js_index s i = (if i < length s then Some (s ! i) else None)"

text \<open>
  \<^verbatim>\<open>xs.includes(v)\<close> for an array of one-character strings: a character is found when
  the one-character string it forms is an element; \<^verbatim>\<open>undefined\<close> is never found.
\<close>

fun js_includes :: "string list \<Rightarrow> js_char \<Rightarrow> bool" where
  "js_includes xs None = False"
| "js_includes xs (Some c) = ([c] \<in> set xs)"

text \<open>\<^verbatim>\<open>new Set(xs).size\<close>: the number of distinct values.\<close>

definition js_set_size :: "'a list \<Rightarrow> nat" where
  "js_set_size xs = length (remdups xs)"

section \<open>Plain objects used as tallies\<close>

text \<open>
  \<^verbatim>\<open>obj[k] = (obj[k] || 0) + 1\<close>: an absent key reads \<^verbatim>\<open>undefined\<close>, which
  \<^verbatim>\<open>|| 0\<close> turns into 0. A new key is added after the existing ones; an existing key
  keeps its place.
\<close>

fun js_bump :: "'k tally \<Rightarrow> 'k \<Rightarrow> 'k tally" where
  "js_bump [] k = [(k, 1)]"
| "js_bump ((k', n) # kvs) k =
     (if k' = k then (k', Suc n) # kvs else (k', n) # js_bump kvs k)"

definition js_tally :: "'k list \<Rightarrow> 'k tally" where
  "js_tally ks = foldl js_bump [] ks"

text \<open>
  The keys of the tallies in src/index.ts are the strings \<^verbatim>\<open>hand[0]\<close> converts to:
  a one-character string, or \<^verbatim>\<open>"undefined"\<close>. \<^verbatim>\<open>for (let k in obj)\<close> visits the
  keys that are array indices first, in ascending numeric order, and then the other keys in
  insertion order. A one-character key is an array index exactly when it is a digit
  (character codes 48 to 57).
\<close>

definition js_is_digit :: "char \<Rightarrow> bool" where
  "js_is_digit c \<longleftrightarrow> (48::nat) \<le> of_char c \<and> of_char c \<le> (57::nat)"

fun js_index_key :: "js_char \<Rightarrow> bool" where
  "js_index_key None = False"
| "js_index_key (Some c) = js_is_digit c"

definition js_forin_order :: "js_char tally \<Rightarrow> js_char tally" where
  "js_forin_order kvs =
     sort_key (\<lambda>kv. of_char (the (fst kv)) :: nat) (filter (\<lambda>kv. js_index_key (fst kv)) kvs)
     @ filter (\<lambda>kv. \<not> js_index_key (fst kv)) kvs"

section \<open>Numbers\<close>

text \<open>\<^verbatim>\<open>parseInt\<close> of a one-character string: its digit, or \<^verbatim>\<open>NaN\<close>.\<close>

fun js_parse_int :: "js_char \<Rightarrow> js_num" where
  "js_parse_int None = None"
| "js_parse_int (Some c) =
     (if js_is_digit c then Some (int (of_char c) - 48) else None)"

text \<open>\<^verbatim>\<open>a - b === -1\<close> with \<^verbatim>\<open>NaN\<close> absorbing: false when either side is \<^verbatim>\<open>NaN\<close>.\<close>

fun js_step_is_one :: "js_num \<Rightarrow> js_num \<Rightarrow> bool" where
  "js_step_is_one (Some a) (Some b) = (a - b = -1)"
| "js_step_is_one _ _ = False"

text \<open>
  \<^verbatim>\<open>xs.sort((a, b) => a - b)\<close>. On numbers the comparator is consistent and the
  result is the ascending order. When an element is \<^verbatim>\<open>NaN\<close> the comparator is
  inconsistent and the order is implementation-defined; the model keeps the input order,
  and \<open>consecutive_run_NaN\<close> (theory Hand_Queries) shows that no use of the result in the program
  depends on that choice.
\<close>

definition js_sort_numeric :: "js_num list \<Rightarrow> js_num list" where
  "js_sort_numeric xs = (if None \<in> set xs then xs else map Some (sort (map the xs)))"

text \<open>\<^verbatim>\<open>Math.max(...xs)\<close> and \<^verbatim>\<open>Math.min(...xs)\<close>: \<^verbatim>\<open>NaN\<close> if any
  argument is; of no argument at all they give an infinity, which the model does not need
  (the program only spreads arrays that \<open>js_split\<close> makes non-empty), so that case is
  also \<open>None\<close>.\<close>

definition js_max :: "js_num list \<Rightarrow> js_num" where
  "js_max xs = (if xs = [] \<or> None \<in> set xs then None else Some (Max (set (map the xs))))"

definition js_min :: "js_num list \<Rightarrow> js_num" where
  "js_min xs = (if xs = [] \<or> None \<in> set xs then None else Some (Min (set (map the xs))))"

section \<open>Lemmas\<close>

subsection \<open>Splitting and joining\<close>

lemma js_split_nonempty [simp]: "js_split s \<noteq> []"
  by (induction s) (auto split: list.split)

lemma js_split_Cons:
  "c \<noteq> CHR '' '' \<Longrightarrow> js_split (c # cs) = (c # hd (js_split cs)) # tl (js_split cs)"
  by (cases "js_split cs") auto

lemma js_join_split [simp]: "js_join (js_split s) = s"
proof (induction s)
  case Nil
  then show ?case by simp
next
  case (Cons c cs)
  show ?case
  proof (cases "c = CHR '' ''")
    case True
    then show ?thesis using Cons.IH
      by (cases "js_split cs") auto
  next
    case False
    then show ?thesis using Cons.IH
      by (cases "js_split cs" rule: remdups_adj.cases) auto
  qed
qed

lemma js_split_no_space: "w \<in> set (js_split s) \<Longrightarrow> CHR '' '' \<notin> set w"
proof (induction s arbitrary: w)
  case Nil
  then show ?case by simp
next
  case (Cons c cs)
  then show ?case
    by (cases "js_split cs") (auto split: if_splits)
qed

lemma js_split_word:
  "CHR '' '' \<notin> set w \<Longrightarrow> js_split (w @ s) = (w @ hd (js_split s)) # tl (js_split s)"
proof (induction w)
  case Nil
  then show ?case by (cases "js_split s") auto
next
  case (Cons c w)
  then have "c \<noteq> CHR '' ''" by auto
  with Cons show ?case by (simp add: js_split_Cons)
qed

lemma js_split_join:
  "ws \<noteq> [] \<Longrightarrow> \<forall>w \<in> set ws. CHR '' '' \<notin> set w \<Longrightarrow> js_split (js_join ws) = ws"
proof (induction ws rule: js_join.induct)
  case 1
  then show ?case by simp
next
  case (2 w)
  then show ?case using js_split_word [of w "[]"] by simp
next
  case (3 w v ws)
  then have "js_split (js_join (v # ws)) = v # ws" by simp
  with "3.prems" show ?case using js_split_word [of w "CHR '' '' # js_join (v # ws)"] by simp
qed

subsection \<open>Tallies\<close>

text \<open>
  A tally lists each key once, in the order of its first occurrence, with the number of
  its occurrences; the for-in order permutes it.
\<close>

lemma js_bump_map:
  "distinct xs \<Longrightarrow> js_bump (map (\<lambda>x. (x, f x)) xs) k =
     (if k \<in> set xs then map (\<lambda>x. (x, if x = k then Suc (f x) else f x)) xs
      else map (\<lambda>x. (x, f x)) xs @ [(k, 1)])"
  by (induction xs) auto

lemma js_tally_eq:
  "js_tally ks = map (\<lambda>k. (k, count_list ks k)) (rev (remdups (rev ks)))"
proof (induction ks rule: rev_induct)
  case Nil
  then show ?case by (simp add: js_tally_def)
next
  case (snoc k ks)
  have d: "distinct (rev (remdups (rev ks)))" by simp
  have "js_tally (ks @ [k]) = js_bump (js_tally ks) k" by (simp add: js_tally_def)
  also have "\<dots> = js_bump (map (\<lambda>x. (x, count_list ks x)) (rev (remdups (rev ks)))) k"
    by (simp add: snoc.IH)
  also have "\<dots> = map (\<lambda>x. (x, count_list (ks @ [k]) x)) (rev (remdups (rev (ks @ [k]))))"
    by (auto simp: js_bump_map [OF d])
  finally show ?case .
qed

lemma js_forin_order_mset: "mset (js_forin_order kvs) = mset kvs"
proof -
  have "mset (js_forin_order kvs) =
    mset (filter (\<lambda>kv. js_index_key (fst kv)) kvs) + mset (filter (\<lambda>kv. \<not> js_index_key (fst kv)) kvs)"
    by (simp add: js_forin_order_def del: mset_filter)
  then show ?thesis by (simp only: mset_filter_split)
qed

lemma js_forin_order_mset_map: "mset (map f (js_forin_order kvs)) = mset (map f kvs)"
  by (simp only: mset_map js_forin_order_mset)

lemma js_forin_order_set [simp]: "set (js_forin_order kvs) = set kvs"
  by (rule mset_eq_set_eq [OF js_forin_order_mset])

lemma js_tally_has_count:
  "(\<exists>kv \<in> set (js_tally ks). snd kv = n) \<longleftrightarrow> (\<exists>k \<in> set ks. count_list ks k = n)"
  by (auto simp: js_tally_eq)

end
