(* ===== verification/Hand_Parsing.thy ===== *)
theory Hand_Parsing
  imports JS_Runtime
begin

text \<open>
  The parsing half of src/index.ts: the test fixture \<open>pokerHands\<close>, the symbol tables
  \<^verbatim>\<open>values\<close> (\<open>values_list\<close>: \<^theory_text>\<open>values\<close> is an Isabelle command) and \<open>suites\<close>, the validator \<open>isValidHand\<close> and the two readers
  \<open>getHandValues\<close> and \<open>getHandSuits\<close>. A hand is a string; the program never builds
  a structured card, it reads the first and second character of each space-separated token.
\<close>

section \<open>Constant tables\<close>

definition pokerHands :: "string list list" where
  "pokerHands =
    [[''2H 3H 4H 5H 6H'', ''KS AS TS QS JS''],
     [''2H 3H 4H 5H 6H'', ''AS AD AC AH JD''],
     [''AS AH 2H AD AC'', ''JS JD JC JH 3D''],
     [''2S AH 2H AS AC'', ''JS JD JC JH AD''],
     [''2S AH 2H AS AC'', ''2H 3H 5H 6H 7H''],
     [''AS 3S 4S 8S 2S'', ''2H 3H 5H 6H 7H''],
     [''2H 3H 5H 6H 7H'', ''2S 3H 4H 5S 6C''],
     [''2S 3H 4H 5S 6C'', ''3D 4C 5H 6H 2S''],
     [''2S 3H 4H 5S 6C'', ''AH AC 5H 6H AS''],
     [''2S 2H 4H 5S 4C'', ''AH AC 5H 6H AS''],
     [''2S 2H 4H 5S 4C'', ''AH AC 5H 6H 7S''],
     [''6S AD 7H 4S AS'', ''AH AC 5H 6H 7S''],
     [''2S AH 4H 5S KC'', ''AH AC 5H 6H 7S''],
     [''2S 3H 6H 7S 9C'', ''7H 3C TH 6H 9S''],
     [''4S 5H 6H TS AC'', ''3S 5H 6H TS AC''],
     [''2S AH 4H 5S 6C'', ''AD 4C 5H 6H 2C'']]"

definition values_list :: "string list" where
  "values_list = [[CHR ''2''], [CHR ''3''], [CHR ''4''], [CHR ''5''], [CHR ''6''], [CHR ''7''],
     [CHR ''8''], [CHR ''9''], [CHR ''T''], [CHR ''J''], [CHR ''Q''], [CHR ''K''], [CHR ''A'']]"

definition suites :: "string list" where
  "suites = [[CHR ''S''], [CHR ''H''], [CHR ''D''], [CHR ''C'']]"

section \<open>isValidHand\<close>

text \<open>The message every failure of \<open>isValidHand\<close> throws.\<close>

abbreviation invalid_hand :: js_error where
  "invalid_hand \<equiv> Error ''Invalid hand!''"

text \<open>The test of one token, \<^verbatim>\<open>values.includes(value) && suites.includes(suit)\<close>.\<close>

definition token_ok :: "string \<Rightarrow> bool" where
  "token_ok hand \<longleftrightarrow> js_includes values_list (js_index hand 0) \<and> js_includes suites (js_index hand 1)"

text \<open>The first loop: count the value of each token, throwing at the first bad token.\<close>

fun count_valid_cards :: "string list \<Rightarrow> js_char tally \<Rightarrow> js_error + js_char tally" where
  "count_valid_cards [] valueCounts = Inr valueCounts"
| "count_valid_cards (hand # hands) valueCounts =
     (if token_ok hand then count_valid_cards hands (js_bump valueCounts (js_index hand 0))
      else Inl invalid_hand)"

text \<open>The second loop: throw when some value occurs exactly five times.\<close>

fun check_no_five :: "js_char tally \<Rightarrow> js_error + unit" where
  "check_no_five [] = Inr ()"
| "check_no_five ((value, n) # kvs) = (if n = 5 then Inl invalid_hand else check_no_five kvs)"

definition isValidHand :: "string \<Rightarrow> js_error + bool" where
  "isValidHand pokerHand =
     (let splitHand = js_split pokerHand in
      if length splitHand = 5 then
        (case count_valid_cards splitHand [] of
           Inl e \<Rightarrow> Inl e
         | Inr valueCounts \<Rightarrow>
             (case check_no_five (js_forin_order valueCounts) of
                Inl e \<Rightarrow> Inl e
              | Inr _ \<Rightarrow> Inr True))
      else Inl invalid_hand)"

text \<open>The characters the two tables accept, as strings of one-character symbols.\<close>

abbreviation rank_symbols :: string where
  "rank_symbols \<equiv> ''23456789TJQKA''"

abbreviation suit_symbols :: string where
  "suit_symbols \<equiv> ''SHDC''"

section \<open>Reading the hand\<close>

definition getHandValues :: "string \<Rightarrow> js_char list" where
  "getHandValues pokerHand = map (\<lambda>hand. js_index hand 0) (js_split pokerHand)"

definition getHandSuits :: "string \<Rightarrow> js_char list" where
  "getHandSuits pokerHand = map (\<lambda>hand. js_index hand 1) (js_split pokerHand)"

section \<open>Lemmas\<close>

lemma count_valid_cards_eq:
  "count_valid_cards hs vc =
     (if list_all token_ok hs then Inr (foldl js_bump vc (map (\<lambda>h. js_index h 0) hs))
      else Inl invalid_hand)"
  by (induction hs arbitrary: vc) auto

lemma check_no_five_eq:
  "check_no_five kvs = (if \<exists>kv \<in> set kvs. snd kv = 5 then Inl invalid_hand else Inr ())"
  by (induction kvs rule: check_no_five.induct) auto

lemma js_tally_getHandValues:
  "foldl js_bump [] (map (\<lambda>h. js_index h 0) (js_split h)) = js_tally (getHandValues h)"
  by (simp add: js_tally_def getHandValues_def)

lemma isValidHand_closed:
  "isValidHand h =
     (if length (js_split h) = 5 \<and> list_all token_ok (js_split h)
         \<and> list_all (\<lambda>v. count_list (getHandValues h) v \<noteq> 5) (getHandValues h)
      then Inr True else Inl invalid_hand)"
proof -
  have five: "(\<exists>kv \<in> set (js_tally (getHandValues h)). snd kv = 5) \<longleftrightarrow>
      \<not> list_all (\<lambda>v. count_list (getHandValues h) v \<noteq> 5) (getHandValues h)"
    by (simp only: js_tally_has_count list_all_iff) blast
  show ?thesis
    by (simp add: isValidHand_def count_valid_cards_eq check_no_five_eq js_tally_getHandValues
        five Let_def)
qed

lemma token_ok_iff:
  "token_ok t \<longleftrightarrow> (\<exists>r s u. t = r # s # u \<and> r \<in> set rank_symbols \<and> s \<in> set suit_symbols)"
  by (cases t rule: remdups_adj.cases) (auto simp: token_ok_def js_index_def values_list_def suites_def)

lemma token_ok_index:
  "token_ok t \<Longrightarrow> js_index t 0 = Some (t ! 0) \<and> t ! 0 \<in> set rank_symbols
     \<and> js_index t 1 = Some (t ! 1) \<and> t ! 1 \<in> set suit_symbols"
  by (auto simp: token_ok_iff js_index_def)

lemma isValidHand_True_iff:
  "isValidHand h = Inr True \<longleftrightarrow>
     length (js_split h) = 5 \<and> list_all token_ok (js_split h)
     \<and> list_all (\<lambda>v. count_list (getHandValues h) v \<noteq> 5) (getHandValues h)"
  by (simp add: isValidHand_closed)

lemma valid_hand_values:
  assumes "isValidHand h = Inr True"
  shows "getHandValues h = map Some (map (\<lambda>t. t ! 0) (js_split h))
    \<and> set (map (\<lambda>t. t ! 0) (js_split h)) \<subseteq> set rank_symbols"
  using assms token_ok_index by (fastforce simp: isValidHand_True_iff getHandValues_def list_all_iff)

lemma valid_hand_suits:
  assumes "isValidHand h = Inr True"
  shows "getHandSuits h = map Some (map (\<lambda>t. t ! 1) (js_split h))
    \<and> set (map (\<lambda>t. t ! 1) (js_split h)) \<subseteq> set suit_symbols"
  using assms token_ok_index by (fastforce simp: isValidHand_True_iff getHandSuits_def list_all_iff)

lemma list_all_token_ok: "list_all token_ok ts \<longleftrightarrow>
      (\<forall>t \<in> set ts. \<exists>r s u. t = r # s # u \<and> r \<in> set rank_symbols \<and> s \<in> set suit_symbols)"
  unfolding list_all_iff by (rule ball_cong [OF refl token_ok_iff])

lemma getHandValues_count_hd: "list_all token_ok (js_split h) \<Longrightarrow> list_all (\<lambda>v. count_list (getHandValues h) v \<noteq> 5) (getHandValues h) \<longleftrightarrow>
      (\<forall>t \<in> set (js_split h). count_list (map hd (js_split h)) (hd t) \<noteq> 5)"
proof -
  assume ok: "list_all token_ok (js_split h)"
  have "\<forall>t \<in> set (js_split h). js_index t 0 = Some (hd t)"
    using ok by (auto simp: list_all_iff js_index_def hd_conv_nth dest!: token_ok_index)
  then have "getHandValues h = map Some (map hd (js_split h))"
    by (simp add: getHandValues_def)
  then show ?thesis by (simp del: map_map add: list_all_iff count_list_map_conv [OF inj_Some])
qed

lemma length_getHandValues [simp]: "length (getHandValues h) = length (js_split h)"
  by (simp add: getHandValues_def)

lemma length_getHandSuits [simp]: "length (getHandSuits h) = length (js_split h)"
  by (simp add: getHandSuits_def)

section \<open>Properties\<close>

text \<open>C1: isValidHand either returns true or throws the one error "Invalid hand!"; it
  returns true exactly when the hand splits into five tokens, each token has at least two
  characters, the first a rank symbol of \<open>23456789TJQKA\<close> and the second a suit symbol of
  \<open>SHDC\<close>, and no first character occurs five times.\<close>

theorem isValidHand_spec:
  "isValidHand h \<in> {Inr True, Inl invalid_hand} \<and>
   (isValidHand h = Inr True \<longleftrightarrow>
      length (js_split h) = 5
      \<and> (\<forall>t \<in> set (js_split h). \<exists>r s u. t = r # s # u \<and> r \<in> set rank_symbols \<and> s \<in> set suit_symbols)
      \<and> (\<forall>t \<in> set (js_split h). count_list (map hd (js_split h)) (hd t) \<noteq> 5))"
proof -
  have "isValidHand h = Inr True \<longleftrightarrow>
      length (js_split h) = 5
      \<and> (\<forall>t \<in> set (js_split h). \<exists>r s u. t = r # s # u \<and> r \<in> set rank_symbols \<and> s \<in> set suit_symbols)
      \<and> (\<forall>t \<in> set (js_split h). count_list (map hd (js_split h)) (hd t) \<noteq> 5)"
    unfolding isValidHand_True_iff list_all_token_ok [symmetric] using getHandValues_count_hd by blast
  moreover have "isValidHand h \<in> {Inr True, Inl invalid_hand}" by (simp add: isValidHand_closed)
  ultimately show ?thesis by blast
qed

theorem isValidHand_spec_witness:
  "isValidHand ''2H 3H 4H 5H 6H'' = Inr True \<and> isValidHand ''2H 3X 4H 5H 6H'' = Inl invalid_hand"
proof -
  have a: "isValidHand ''2H 3H 4H 5H 6H'' = Inr True" using isValidHand_spec [of "''2H 3H 4H 5H 6H''"] by simp
  have "isValidHand ''2H 3X 4H 5H 6H'' \<noteq> Inr True" using isValidHand_spec [of "''2H 3X 4H 5H 6H''"] by simp
  moreover have "isValidHand ''2H 3X 4H 5H 6H'' \<in> {Inr True, Inl invalid_hand}" using isValidHand_spec [of "''2H 3X 4H 5H 6H''"] by blast
  ultimately show ?thesis using a by blast
qed

text \<open>C22: Neither loop of isValidHand depends on the order of the tokens: where the first loop
  throws and the for-in order of the second do not change the result, so isValidHand treats a
  hand as a multiset of tokens.\<close>

theorem isValidHand_perm:
  assumes "mset (js_split h') = mset (js_split h)"
  shows "isValidHand h' = isValidHand h"
proof -
  have len: "length (js_split h') = length (js_split h)" using assms by (metis size_mset)
  have set: "set (js_split h') = set (js_split h)" using assms by (rule mset_eq_set_eq)
  have "mset (getHandValues h') = mset (getHandValues h)"
    using assms by (simp add: getHandValues_def)
  then have c: "count_list (getHandValues h') = count_list (getHandValues h)"
    and s: "set (getHandValues h') = set (getHandValues h)"
    by (metis count_mset ext, rule mset_eq_set_eq)
  show ?thesis by (simp add: isValidHand_closed len list_all_iff set c s)
qed

theorem isValidHand_perm_witness:
  "mset (js_split ''6H 5H AH 3H 2H'') = mset (js_split ''2H 3H AH 5H 6H'') \<and>
   isValidHand ''6H 5H AH 3H 2H'' = isValidHand ''2H 3H AH 5H 6H''"
  using isValidHand_perm [of "''6H 5H AH 3H 2H''" "''2H 3H AH 5H 6H''"] by simp

end
