(* ===== verification/Hand_Queries.thy ===== *)
theory Hand_Queries
  imports Hand_Parsing
begin

text \<open>
  The queries of src/index.ts on a hand string: \<open>hasAPair\<close>, \<open>getPairSize\<close>,
  \<open>isAFlush\<close>, \<open>isAStraight\<close>, \<open>getHandValuesNumericValue\<close>, \<open>getHighCard\<close>,
  \<open>getLowCard\<close>, and the unimplemented \<open>comparePokerHands\<close>. None of them validates
  its input: each reads the hand through \<open>getHandValues\<close> or \<open>getHandSuits\<close>.
\<close>

section \<open>Pairs\<close>

definition hasAPair :: "string \<Rightarrow> bool" where
  "hasAPair pokerHand =
     (let handValues = getHandValues pokerHand in length handValues \<noteq> js_set_size handValues)"

text \<open>
  The loop of \<open>getPairSize\<close> over the keys of the tally, in for-in order: a count
  above 1 is added, except that a count of 4 sets the result to 6.
\<close>

fun pair_size_loop :: "js_char tally \<Rightarrow> nat \<Rightarrow> nat" where
  "pair_size_loop [] pairSize = pairSize"
| "pair_size_loop ((value, n) # kvs) pairSize =
     pair_size_loop kvs (if 1 < n then (if n = 4 then 6 else pairSize + n) else pairSize)"

definition getPairSize :: "string \<Rightarrow> nat" where
  "getPairSize pokerHand =
     (let handValues = getHandValues pokerHand;
          valueCounts = js_tally handValues
      in pair_size_loop (js_forin_order valueCounts) 0)"

text \<open>
  What \<open>getPairSize\<close> is meant to compute (spec section 4.3): from the multiset of
  the counts of the distinct values, the sum of the counts above 1, except that a four of a
  kind scores 6.
\<close>

definition value_counts :: "'a list \<Rightarrow> nat multiset" where
  "value_counts vs = mset (map (count_list vs) (remdups vs))"

definition pair_score :: "nat multiset \<Rightarrow> nat" where
  "pair_score cs = (if 4 \<in># cs then 6 else sum_mset (filter_mset (\<lambda>n. 1 < n) cs))"

section \<open>Flush\<close>

definition isAFlush :: "string \<Rightarrow> bool" where
  "isAFlush pokerHand = (let handSuits = getHandSuits pokerHand in js_set_size handSuits = 1)"

section \<open>Numeric values\<close>

text \<open>The \<^verbatim>\<open>switch\<close>: the face symbols, and \<^verbatim>\<open>parseInt\<close> for everything else.\<close>

definition getHandValuesNumericValue :: "js_char \<Rightarrow> js_num" where
  "getHandValuesNumericValue value =
     (if value = Some CHR ''T'' then Some 10
      else if value = Some CHR ''J'' then Some 11
      else if value = Some CHR ''Q'' then Some 12
      else if value = Some CHR ''K'' then Some 13
      else if value = Some CHR ''A'' then Some 14
      else js_parse_int value)"

definition getHighCard :: "string \<Rightarrow> js_num" where
  "getHighCard pokerHand =
     (let handValues = getHandValues pokerHand;
          numericHandValues = map getHandValuesNumericValue handValues
      in js_max numericHandValues)"

definition getLowCard :: "string \<Rightarrow> js_num" where
  "getLowCard pokerHand =
     (let handValues = getHandValues pokerHand;
          numericHandValues = map getHandValuesNumericValue handValues
      in js_min numericHandValues)"

section \<open>Straight\<close>

text \<open>
  The loop of \<open>isAStraight\<close>: for \<open>i\<close> from 0 to \<open>length - 2\<close>, return false
  unless \<^verbatim>\<open>sorted[i] - sorted[i + 1] === -1\<close>; return true after the loop.
\<close>

fun consecutive_run :: "js_num list \<Rightarrow> bool" where
  "consecutive_run (a # b # rest) = (if js_step_is_one a b then consecutive_run (b # rest) else False)"
| "consecutive_run _ = True"

text \<open>
  \<open>isAStraight\<close> also computes \<open>getHighCard\<close> and \<open>getLowCard\<close> and never reads
  them; both are pure, so they are kept as unused bindings.
\<close>

definition isAStraight :: "string \<Rightarrow> bool" where
  "isAStraight pokerHand =
     (let handValues = getHandValues pokerHand;
          numericHandValues = map getHandValuesNumericValue handValues;
          sortedNumValues = js_sort_numeric numericHandValues;
          highCard = getHighCard pokerHand;
          lowCard = getLowCard pokerHand
      in consecutive_run sortedNumValues)"

section \<open>Comparison\<close>

text \<open>
  \<open>comparePokerHands\<close> has an empty body: it returns \<^verbatim>\<open>undefined\<close> for every
  pair of strings. The JavaScript values it could return are modelled by \<open>js_result\<close>.
\<close>

datatype js_result = Undefined | Number int

definition comparePokerHands :: "string \<Rightarrow> string \<Rightarrow> js_result" where
  "comparePokerHands handOne handTwo = Undefined"

section \<open>Lemmas\<close>

subsection \<open>Pair size\<close>

lemma pair_size_loop_no_four:
  "\<forall>kv \<in> set kvs. snd kv \<noteq> 4 \<Longrightarrow>
   pair_size_loop kvs acc = acc + sum_list (filter (\<lambda>n. 1 < n) (map snd kvs))"
  by (induction kvs acc rule: pair_size_loop.induct) auto

lemma pair_size_loop_four:
  "\<forall>kv \<in> set kvs. snd kv \<noteq> 4 \<longrightarrow> snd kv \<le> 1 \<Longrightarrow>
   pair_size_loop kvs acc = (if \<exists>kv \<in> set kvs. snd kv = 4 then 6 else acc)"
  by (induction kvs acc rule: pair_size_loop.induct) auto

lemma mset_tally_counts: "mset (map snd (js_tally vs)) = value_counts vs"
proof -
  have "map snd (js_tally vs) = map (count_list vs) (rev (remdups (rev vs)))"
    by (simp add: js_tally_eq comp_def)
  then have "mset (map snd (js_tally vs)) = image_mset (count_list vs) (mset (rev (remdups (rev vs))))"
    by simp
  also have "\<dots> = image_mset (count_list vs) (mset (remdups vs))"
    by (simp only: mset_rev_remdups_rev)
  finally show ?thesis by (simp add: value_counts_def)
qed

lemma sum_value_counts: "sum_mset (value_counts vs) = length vs"
proof -
  have "sum_mset (value_counts vs) = sum_list (map (count_list vs) (remdups vs))"
    by (simp only: value_counts_def sum_mset_sum_list)
  also have "\<dots> = sum (count_list vs) (set vs)"
    by (simp add: sum_list_distinct_conv_sum_set)
  also have "\<dots> = length vs" by (simp add: sum_count_set)
  finally show ?thesis .
qed

lemma value_counts_mset: "mset vs = mset ws \<Longrightarrow> value_counts vs = value_counts ws"
proof -
  assume eq: "mset vs = mset ws"
  then have c: "count_list vs = count_list ws" by (metis count_mset ext)
  have "set (remdups vs) = set (remdups ws)"
    using mset_eq_set_eq [OF eq] by simp
  then have "mset (remdups vs) = mset (remdups ws)"
    by (simp only: set_eq_iff_mset_eq_distinct [OF distinct_remdups distinct_remdups])
  then have "image_mset (count_list ws) (mset (remdups vs)) = image_mset (count_list ws) (mset (remdups ws))"
    by simp
  then show ?thesis by (simp add: value_counts_def c)
qed
lemma getPairSize_eq_score:
  assumes five: "length (js_split h) = 5"
  shows "getPairSize h = pair_score (value_counts (getHandValues h))"
proof -
  let ?vs = "getHandValues h"
  let ?kvs = "js_forin_order (js_tally ?vs)"
  have m: "mset (map snd ?kvs) = value_counts ?vs"
    by (simp only: js_forin_order_mset_map mset_tally_counts)
  have s: "sum_mset (mset (map snd ?kvs)) = 5"
    using five by (simp only: m sum_value_counts length_getHandValues)
  show ?thesis
  proof (cases "4 \<in># value_counts ?vs")
    case True
    then obtain rest where split: "mset (map snd ?kvs) = add_mset 4 rest"
      by (metis m mset_add)
    with s have "sum_mset rest = 1" by simp
    then have rest_le: "\<forall>n \<in># rest. n \<le> 1"
      by (metis sum_mset.remove le_add1 mset_add)
    have "\<forall>kv \<in> set ?kvs. snd kv \<noteq> 4 \<longrightarrow> snd kv \<le> 1"
    proof (intro ballI impI)
      fix kv assume "kv \<in> set ?kvs" and "snd kv \<noteq> 4"
      then have "snd kv \<in># add_mset 4 rest" by (metis split image_eqI set_map set_mset_mset)
      with \<open>snd kv \<noteq> 4\<close> rest_le show "snd kv \<le> 1" by auto
    qed
    moreover have "\<exists>kv \<in> set ?kvs. snd kv = 4"
      using True m by (metis image_iff set_map set_mset_mset)
    ultimately have "pair_size_loop ?kvs 0 = 6" by (simp add: pair_size_loop_four)
    with True show ?thesis by (simp add: getPairSize_def pair_score_def)
  next
    case False
    then have "\<forall>kv \<in> set ?kvs. snd kv \<noteq> 4"
      using m by (metis image_eqI set_map set_mset_mset)
    then have "pair_size_loop ?kvs 0 = sum_list (filter (\<lambda>n. 1 < n) (map snd ?kvs))"
      by (simp add: pair_size_loop_no_four)
    also have "\<dots> = sum_mset (filter_mset (\<lambda>n. 1 < n) (value_counts ?vs))"
      by (simp only: sum_list_filter_mset m)
    finally show ?thesis using False by (simp add: getPairSize_def pair_score_def)
  qed
qed

text \<open>The pair size is zero exactly when no value repeats.\<close>

lemma pair_size_loop_zero: "pair_size_loop kvs acc = 0 \<longleftrightarrow> acc = 0 \<and> (\<forall>kv \<in> set kvs. snd kv \<le> 1)"
  by (induction kvs acc rule: pair_size_loop.induct) auto

lemma getPairSize_zero_iff: "getPairSize h = 0 \<longleftrightarrow> distinct (getHandValues h)"
  by (auto simp: getPairSize_def pair_size_loop_zero js_tally_eq distinct_count_list_le_one Let_def)

text \<open>
  On five values the sorted counts are a partition of five, so the pair score takes one of
  seven shapes.
\<close>

lemma count_shape_five:
  assumes "length vs = 5"
  shows "sort (map (count_list vs) (remdups vs)) \<in>
    {[5], [1, 4], [2, 3], [1, 1, 3], [1, 2, 2], [1, 1, 1, 2], [1, 1, 1, 1, 1]}"
proof (rule sorted_partitions_five)
  let ?ys = "sort (map (count_list vs) (remdups vs))"
  show "sorted ?ys" by simp
  show "\<forall>y \<in> set ?ys. 1 \<le> y" by (auto simp: Suc_le_eq intro: gr0I simp: count_list_0_iff)
  have "sum_list ?ys = sum_mset (value_counts vs)"
    by (simp only: value_counts_def sum_mset_sum_list [symmetric] mset_sort)
  then show "sum_list ?ys = 5" using assms by (simp only: sum_value_counts)
qed

lemma pair_score_distinct: "distinct vs \<Longrightarrow> pair_score (value_counts vs) = 0"
  by (auto simp: pair_score_def value_counts_def distinct_remdups_id count_list_distinct)

subsection \<open>Straight\<close>

lemma consecutive_run_sorted:
  fixes xs :: "int list"
  shows "sorted xs \<Longrightarrow>
    consecutive_run (map Some xs) \<longleftrightarrow> distinct xs \<and> (xs = [] \<or> last xs - hd xs = int (length xs) - 1)"
proof (induction xs rule: remdups_adj.induct)
  case 1
  then show ?case by simp
next
  case (2 x)
  then show ?case by simp
next
  case (3 x y zs)
  have xy: "x \<le> y" and ge: "\<forall>z \<in> set zs. y \<le> z" and s: "sorted (y # zs)" using "3.prems" by auto
  show ?case
  proof
    assume c: "consecutive_run (map Some (x # y # zs))"
    then have y: "y = x + 1" and c': "consecutive_run (map Some (y # zs))" by (auto split: if_splits)
    with "3.IH" s have "distinct (y # zs)" and "last (y # zs) - y = int (length zs)" by auto
    with y ge show "distinct (x # y # zs) \<and> (x # y # zs = [] \<or> last (x # y # zs) - hd (x # y # zs) = int (length (x # y # zs)) - 1)"
      by auto
  next
    assume r: "distinct (x # y # zs) \<and> (x # y # zs = [] \<or> last (x # y # zs) - hd (x # y # zs) = int (length (x # y # zs)) - 1)"
    then have d: "distinct (y # zs)" and l: "last (y # zs) - x = int (length zs) + 1" and "x \<noteq> y" by auto
    with xy have "x < y" by simp
    have "y + int (length zs) \<le> last (y # zs)"
      using sorted_distinct_span [OF s d] by simp
    with l \<open>x < y\<close> have y: "y = x + 1" by simp
    with l have "last (y # zs) - y = int (length zs)" by simp
    with "3.IH"(2) s d \<open>x < y\<close> have "consecutive_run (map Some (y # zs))" by simp
    with y show "consecutive_run (map Some (x # y # zs))" by simp
  qed
qed

lemma consecutive_run_NaN: "None \<in> set xs \<Longrightarrow> 2 \<le> length xs \<Longrightarrow> \<not> consecutive_run xs"
proof (induction xs rule: consecutive_run.induct)
  case (1 a b rest)
  show ?case
  proof (cases "a = None \<or> b = None")
    case True
    then show ?thesis by (cases a; cases b) auto
  next
    case False
    with "1.prems" have "None \<in> set rest" by auto
    then have "None \<in> set (b # rest)" and "2 \<le> length (b # rest)" by (auto simp: Suc_le_eq)
    with "1.IH" False show ?thesis by (cases a; cases b) auto
  qed
qed auto

lemma js_sort_numeric_Some: "js_sort_numeric (map Some ns) = map Some (sort ns)"
  by (simp add: js_sort_numeric_def comp_def)

lemma isAStraight_numeric:
  assumes ns: "map getHandValuesNumericValue (getHandValues h) = map Some ns"
  shows "isAStraight h \<longleftrightarrow> distinct ns \<and> Max (set ns) - Min (set ns) = int (length ns) - 1"
proof -
  have ne: "ns \<noteq> []" using arg_cong [OF ns, of length] by auto
  then have sne: "sort ns \<noteq> []" by (metis length_0_conv length_sort)
  have "isAStraight h \<longleftrightarrow> consecutive_run (map Some (sort ns))"
    by (simp add: isAStraight_def ns js_sort_numeric_Some)
  also have "\<dots> \<longleftrightarrow> distinct (sort ns) \<and> last (sort ns) - hd (sort ns) = int (length ns) - 1"
    using sne by (simp add: consecutive_run_sorted)
  also have "\<dots> \<longleftrightarrow> distinct ns \<and> Max (set ns) - Min (set ns) = int (length ns) - 1"
    using sne by (simp add: sorted_hd_Min sorted_last_Max)
  finally show ?thesis .
qed

text \<open>
  A straight of two values or more has no NaN: its numeric values are distinct and span
  their number.
\<close>

lemma isAStraight_numeric_values:
  assumes st: "isAStraight h" and len: "2 \<le> length (js_split h)"
  shows "\<exists>ns. map getHandValuesNumericValue (getHandValues h) = map Some ns
    \<and> distinct ns \<and> Max (set ns) - Min (set ns) = int (length ns) - 1"
proof -
  let ?xs = "map getHandValuesNumericValue (getHandValues h)"
  have "None \<notin> set ?xs"
  proof
    assume "None \<in> set ?xs"
    moreover have "2 \<le> length ?xs" using len by simp
    moreover have "js_sort_numeric ?xs = ?xs" using \<open>None \<in> set ?xs\<close> by (simp only: js_sort_numeric_def if_True)
    ultimately show False using st consecutive_run_NaN by (simp add: isAStraight_def)
  qed
  then have ns: "?xs = map Some (map the ?xs)" by (rule map_Some_the [symmetric])
  show ?thesis using isAStraight_numeric [OF ns] st ns by blast
qed

subsection \<open>Numeric values\<close>

lemma getHandValuesNumericValue_table:
  "map (\<lambda>c. getHandValuesNumericValue (Some c)) rank_symbols = map Some [2..14]"
  by (simp add: getHandValuesNumericValue_def js_is_digit_def upto.simps)

lemma getHandValuesNumericValue_image:
  "(\<lambda>c. getHandValuesNumericValue (Some c)) ` set rank_symbols = Some ` {2..14}"
  using arg_cong [OF getHandValuesNumericValue_table, of set] by (simp only: set_map set_upto)

lemma getHandValuesNumericValue_rank:
  assumes "c \<in> set rank_symbols"
  shows "\<exists>n. getHandValuesNumericValue (Some c) = Some n \<and> 2 \<le> n \<and> n \<le> 14"
proof -
  from assms have "getHandValuesNumericValue (Some c) \<in> Some ` {2..14}"
    by (rule getHandValuesNumericValue_image [THEN equalityD1, THEN subsetD, OF imageI])
  then show ?thesis by auto
qed

lemma valid_hand_numeric:
  assumes "isValidHand h = Inr True"
  shows "\<exists>ns. map getHandValuesNumericValue (getHandValues h) = map Some ns
    \<and> length ns = 5 \<and> (\<forall>n \<in> set ns. 2 \<le> n \<and> n \<le> 14)"
proof -
  let ?cs = "map (\<lambda>t. t ! 0) (js_split h)"
  let ?num = "\<lambda>c. the (getHandValuesNumericValue (Some c))"
  from valid_hand_values [OF assms] have vs: "getHandValues h = map Some ?cs"
    and sub: "set ?cs \<subseteq> set rank_symbols" by auto
  have b: "getHandValuesNumericValue (Some c) = Some (?num c) \<and> 2 \<le> ?num c \<and> ?num c \<le> 14"
    if c_in: "c \<in> set ?cs" for c
  proof -
    obtain n where "getHandValuesNumericValue (Some c) = Some n" and "2 \<le> n" and "n \<le> 14"
      using getHandValuesNumericValue_rank [OF subsetD [OF sub c_in]] by blast
    then show ?thesis by simp
  qed
  then have "map (\<lambda>c. getHandValuesNumericValue (Some c)) ?cs = map (\<lambda>c. Some (?num c)) ?cs"
    by (intro map_cong refl) blast
  then have "map getHandValuesNumericValue (getHandValues h) = map Some (map ?num ?cs)"
    by (simp only: vs map_map comp_def)
  moreover have "length (js_split h) = 5"
    using assms by (simp add: isValidHand_True_iff)
  moreover have "\<forall>n \<in> set (map ?num ?cs). 2 \<le> n \<and> n \<le> 14"
    using b by auto
  ultimately show ?thesis by (intro exI [of _ "map ?num ?cs"]) auto
qed

subsection \<open>Flush, pairs, high and low card\<close>

lemma getHandValues_nonempty [simp]: "getHandValues h \<noteq> []"
  by (simp add: getHandValues_def)

lemma getHandSuits_nonempty [simp]: "getHandSuits h \<noteq> []"
  by (simp add: getHandSuits_def)

lemma hasAPair_iff: "hasAPair h \<longleftrightarrow> \<not> distinct (getHandValues h)"
  unfolding hasAPair_def js_set_size_def Let_def
  by (metis length_remdups_eq_iff_distinct)

lemma isAFlush_iff: "isAFlush h \<longleftrightarrow> (\<forall>s \<in> set (getHandSuits h). s = hd (getHandSuits h))"
  by (simp add: isAFlush_def js_set_size_def length_remdups_eq_one_iff Let_def)

lemma high_low_numeric:
  assumes ns: "map getHandValuesNumericValue (getHandValues h) = map Some ns"
  shows "getHighCard h = Some (Max (set ns)) \<and> getLowCard h = Some (Min (set ns))"
proof -
  have "ns \<noteq> []" using arg_cong [OF ns, of length] by auto
  moreover have "None \<notin> getHandValuesNumericValue ` set (getHandValues h)"
    using arg_cong [OF ns, of set] by auto
  ultimately show ?thesis
    by (simp add: getHighCard_def getLowCard_def js_max_def js_min_def ns comp_def Let_def)
qed

section \<open>Properties\<close>

text \<open>C18: On every hand of five tokens, getPairSize does not depend on the order of the
  tokens: permuting them gives the same pair size.\<close>

theorem getPairSize_perm_five:
  assumes "length (js_split h) = 5" and "mset (js_split h') = mset (js_split h)"
  shows "getPairSize h' = getPairSize h"
proof -
  have len': "length (js_split h') = 5" using assms by (metis size_mset)
  have "mset (getHandValues h') = mset (getHandValues h)"
    using assms(2) by (simp add: getHandValues_def)
  then have "value_counts (getHandValues h') = value_counts (getHandValues h)"
    by (rule value_counts_mset)
  then show ?thesis by (simp add: getPairSize_eq_score [OF len'] getPairSize_eq_score [OF assms(1)])
qed

theorem getPairSize_perm_five_witness:
  "length (js_split ''2H 2D 4H 4S 6H'') = 5 \<and>
   mset (js_split ''4S 6H 2H 4H 2D'') = mset (js_split ''2H 2D 4H 4S 6H'') \<and>
   getPairSize ''4S 6H 2H 4H 2D'' = getPairSize ''2H 2D 4H 4S 6H''"
proof -
  have a: "length (js_split ''2H 2D 4H 4S 6H'') = 5" by simp
  have b: "mset (js_split ''4S 6H 2H 4H 2D'') = mset (js_split ''2H 2D 4H 4S 6H'')" by simp
  show ?thesis using getPairSize_perm_five [OF a b] a b by blast
qed



text \<open>C3: The ace-low straight A-2-3-4-5 is never a straight for isAStraight: the ace
  counts 14, so the sorted values [2, 3, 4, 5, 14] are not consecutive. The test
  "AH 2H 3C 4S 5D should return true" of src/index.spec.ts fails.\<close>

theorem isAStraight_ace_low:
  assumes "map getHandValuesNumericValue (getHandValues h) = map Some ns"
    and "set ns = {2, 3, 4, 5, 14}"
  shows "\<not> isAStraight h"
proof -
  have "Max (set ns) - Min (set ns) = 12" using assms(2) by simp
  moreover have "distinct ns \<Longrightarrow> length ns = 5"
    using assms(2) distinct_card [of ns] by simp
  ultimately show ?thesis using isAStraight_numeric [OF assms(1)] by auto
qed

theorem isAStraight_ace_low_witness:
  "map getHandValuesNumericValue (getHandValues ''AH 2H 3C 4S 5D'') = map Some [14, 2, 3, 4, 5] \<and>
   set [14, 2, 3, 4, 5 :: int] = {2, 3, 4, 5, 14} \<and> \<not> isAStraight ''AH 2H 3C 4S 5D''"
proof -
  have a: "map getHandValuesNumericValue (getHandValues ''AH 2H 3C 4S 5D'') = map Some [14, 2, 3, 4, 5]"
    by (simp add: getHandValues_def js_index_def getHandValuesNumericValue_def js_is_digit_def)
  have b: "set [14, 2, 3, 4, 5 :: int] = {2, 3, 4, 5, 14}" by auto
  show ?thesis using isAStraight_ace_low [OF a b] a b by blast
qed

text \<open>C17: When a value is NaN (a token whose first character is neither a face symbol nor a
  digit) and the hand has two tokens or more, isAStraight returns false, and so would the
  loop on any order the sort could produce: the implementation-defined order of a sort with
  NaN does not matter.\<close>

theorem isAStraight_NaN:
  assumes "None \<in> set (map getHandValuesNumericValue (getHandValues h))"
    and "2 \<le> length (js_split h)"
  shows "\<not> isAStraight h \<and>
    (\<forall>ys. mset ys = mset (map getHandValuesNumericValue (getHandValues h)) \<longrightarrow> \<not> consecutive_run ys)"
proof -
  let ?xs = "map getHandValuesNumericValue (getHandValues h)"
  have len: "2 \<le> length ?xs" using assms(2) by simp
  have "js_sort_numeric ?xs = ?xs" using assms(1) by (simp only: js_sort_numeric_def if_True)
  then have "\<not> isAStraight h" using consecutive_run_NaN [OF assms(1) len] by (simp add: isAStraight_def)
  moreover have "\<not> consecutive_run ys" if "mset ys = mset ?xs" for ys
  proof -
    have "None \<in> set ys" using assms(1) mset_eq_set_eq [OF that] by simp
    moreover have "2 \<le> length ys" using len arg_cong [OF that, of size] by simp
    ultimately show ?thesis by (rule consecutive_run_NaN)
  qed
  ultimately show ?thesis by blast
qed

theorem isAStraight_NaN_witness:
  "None \<in> set (map getHandValuesNumericValue (getHandValues ''XH 3H 4H 5H 6H'')) \<and>
   2 \<le> length (js_split ''XH 3H 4H 5H 6H'') \<and> \<not> isAStraight ''XH 3H 4H 5H 6H''"
proof -
  have a: "None \<in> set (map getHandValuesNumericValue (getHandValues ''XH 3H 4H 5H 6H''))"
    by (simp add: getHandValues_def js_index_def getHandValuesNumericValue_def js_is_digit_def)
  have b: "2 \<le> length (js_split ''XH 3H 4H 5H 6H'')" by simp
  show ?thesis using isAStraight_NaN [OF a b] a b by blast
qed

text \<open>C20: On a valid hand getLowCard and getHighCard return numbers with
  2 \<le> low \<le> high \<le> 14.\<close>

theorem getHighCard_getLowCard_bounds:
  assumes "isValidHand h = Inr True"
  shows "\<exists>lo hi. getLowCard h = Some lo \<and> getHighCard h = Some hi \<and> 2 \<le> lo \<and> lo \<le> hi \<and> hi \<le> 14"
proof -
  obtain ns where ns: "map getHandValuesNumericValue (getHandValues h) = map Some ns"
    and len: "length ns = 5" and rng: "\<forall>n \<in> set ns. 2 \<le> n \<and> n \<le> 14"
    using valid_hand_numeric [OF assms] by blast
  have ne: "set ns \<noteq> {}" using len by auto
  have "2 \<le> Min (set ns)" using ne rng by simp
  moreover have "Min (set ns) \<le> Max (set ns)" using ne by simp
  moreover have "Max (set ns) \<le> 14" using ne rng by simp
  ultimately show ?thesis using high_low_numeric [OF ns] by blast
qed

theorem getHighCard_getLowCard_bounds_witness:
  "isValidHand ''2H 5H 6C 9S AD'' = Inr True \<and>
   getLowCard ''2H 5H 6C 9S AD'' = Some 2 \<and> getHighCard ''2H 5H 6C 9S AD'' = Some 14"
proof -
  have a: "isValidHand ''2H 5H 6C 9S AD'' = Inr True"
    by (simp add: isValidHand_True_iff token_ok_iff getHandValues_def js_index_def)
  obtain lo hi where "getLowCard ''2H 5H 6C 9S AD'' = Some lo" "getHighCard ''2H 5H 6C 9S AD'' = Some hi"
    using getHighCard_getLowCard_bounds [OF a] by blast
  have "getLowCard ''2H 5H 6C 9S AD'' = Some 2 \<and> getHighCard ''2H 5H 6C 9S AD'' = Some 14"
    by (simp add: getLowCard_def getHighCard_def getHandValues_def js_index_def js_min_def js_max_def
        getHandValuesNumericValue_def js_is_digit_def)
  then show ?thesis using a by blast
qed

text \<open>C16: isAFlush does not validate its input: a hand whose tokens have no second
  character reads no suit at all (every suit is undefined) and is a flush.\<close>

theorem isAFlush_without_suits:
  assumes "list_all (\<lambda>t. length t \<le> 1) (js_split h)"
  shows "isAFlush h"
proof -
  have "\<forall>s \<in> set (getHandSuits h). s = None"
    using assms by (auto simp: getHandSuits_def js_index_def list_all_iff)
  moreover have "hd (getHandSuits h) \<in> set (getHandSuits h)" by simp
  ultimately show ?thesis unfolding isAFlush_iff by metis
qed

theorem isAFlush_without_suits_witness:
  "list_all (\<lambda>t. length t \<le> 1) (js_split ''2 3 4 5 6'') \<and> isAFlush ''2 3 4 5 6''"
  using isAFlush_without_suits [of "''2 3 4 5 6''"] by simp


text \<open>C9: hasAPair and getPairSize agree on every string: a value repeats exactly when the
  pair size is not zero (the loop only adds counts above one or sets 6).\<close>

theorem hasAPair_getPairSize: "hasAPair h \<longleftrightarrow> getPairSize h \<noteq> 0"
  by (simp add: hasAPair_iff getPairSize_zero_iff)

text \<open>C10: A hand that isAStraight accepts has no pair.\<close>

theorem isAStraight_no_pair:
  assumes "isAStraight h"
  shows "\<not> hasAPair h"
proof (cases "2 \<le> length (js_split h)")
  case True
  then obtain ns where "map getHandValuesNumericValue (getHandValues h) = map Some ns" and "distinct ns"
    using isAStraight_numeric_values [OF assms] by blast
  then have "distinct (map getHandValuesNumericValue (getHandValues h))" by (simp add: distinct_map)
  then show ?thesis by (simp add: hasAPair_iff distinct_map)
next
  case False
  then have "length (getHandValues h) \<le> 1" by simp
  then have "distinct (getHandValues h)" by (cases "getHandValues h" rule: remdups_adj.cases) auto
  then show ?thesis by (simp add: hasAPair_iff)
qed

theorem isAStraight_no_pair_witness:
  "isAStraight ''2H 3H 4C 5S 6D'' \<and> \<not> hasAPair ''2H 3H 4C 5S 6D''"
proof -
  have a: "isAStraight ''2H 3H 4C 5S 6D''"
    by (simp add: isAStraight_def getHandValues_def js_index_def getHandValuesNumericValue_def
        js_is_digit_def js_sort_numeric_def)
  show ?thesis using isAStraight_no_pair [OF a] a by blast
qed

text \<open>C11: isAStraight computes getHighCard and getLowCard and never reads them; on a straight
  of two tokens or more they are numbers whose difference is the number of tokens minus one.\<close>

theorem isAStraight_high_low:
  assumes "isAStraight h" and "2 \<le> length (js_split h)"
  shows "\<exists>lo hi. getLowCard h = Some lo \<and> getHighCard h = Some hi \<and> hi - lo = int (length (js_split h)) - 1"
proof -
  obtain ns where ns: "map getHandValuesNumericValue (getHandValues h) = map Some ns"
    and span: "Max (set ns) - Min (set ns) = int (length ns) - 1"
    using isAStraight_numeric_values [OF assms] by blast
  have "length ns = length (js_split h)" using arg_cong [OF ns, of length] by simp
  then show ?thesis using high_low_numeric [OF ns] span by simp
qed

theorem isAStraight_high_low_witness:
  "isAStraight ''5H 6H 7C 8S 9D'' \<and> 2 \<le> length (js_split ''5H 6H 7C 8S 9D'')
   \<and> getLowCard ''5H 6H 7C 8S 9D'' = Some 5 \<and> getHighCard ''5H 6H 7C 8S 9D'' = Some 9"
proof -
  have a: "isAStraight ''5H 6H 7C 8S 9D''"
    by (simp add: isAStraight_def getHandValues_def js_index_def getHandValuesNumericValue_def
        js_is_digit_def js_sort_numeric_def)
  have b: "2 \<le> length (js_split ''5H 6H 7C 8S 9D'')" by simp
  obtain lo hi where "getLowCard ''5H 6H 7C 8S 9D'' = Some lo" "getHighCard ''5H 6H 7C 8S 9D'' = Some hi"
    using isAStraight_high_low [OF a b] by blast
  have "getLowCard ''5H 6H 7C 8S 9D'' = Some 5 \<and> getHighCard ''5H 6H 7C 8S 9D'' = Some 9"
    by (simp add: getLowCard_def getHighCard_def getHandValues_def js_index_def js_min_def js_max_def
        getHandValuesNumericValue_def js_is_digit_def)
  then show ?thesis using a b by blast
qed

end
