(* ===== verification/Poker_Spec.thy ===== *)
theory Poker_Spec
  imports Hand_Queries
begin

text \<open>
  The abstract specification of the hand-evaluation engine (spec sections 3 and 4):
  structured cards, a parser that builds them from a hand string, the classification of a
  hand into a category with its tie-break key, and the comparison of two hands. The source
  implements none of this as such (\<open>comparePokerHands\<close> is empty); the theory states the
  contract and relates the source's string-level queries to it through the abstraction
  \<open>hand_cards\<close>, which reads a hand the way the source does.
\<close>

section \<open>Ranks, suits, cards\<close>

datatype rank = Two | Three | Four | Five | Six | Seven | Eight | Nine | Ten
  | Jack | Queen | King | Ace

datatype suit = Spades | Hearts | Diamonds | Clubs

type_synonym card = "rank \<times> suit"

fun rank_value :: "rank \<Rightarrow> int" where
  "rank_value Two = 2" | "rank_value Three = 3" | "rank_value Four = 4"
| "rank_value Five = 5" | "rank_value Six = 6" | "rank_value Seven = 7"
| "rank_value Eight = 8" | "rank_value Nine = 9" | "rank_value Ten = 10"
| "rank_value Jack = 11" | "rank_value Queen = 12" | "rank_value King = 13"
| "rank_value Ace = 14"

text \<open>Ranks are ordered by their value, so that the library's order automation applies.\<close>

instantiation rank :: linorder
begin

definition less_eq_rank :: "rank \<Rightarrow> rank \<Rightarrow> bool" where
  "less_eq_rank r s \<longleftrightarrow> rank_value r \<le> rank_value s"

definition less_rank :: "rank \<Rightarrow> rank \<Rightarrow> bool" where
  "less_rank r s \<longleftrightarrow> rank_value r < rank_value s"

instance
proof
  have inj: "rank_value r = rank_value s \<Longrightarrow> r = s" for r s
    by (cases r; cases s) simp_all
  fix x y z :: rank
  show "x < y \<longleftrightarrow> x \<le> y \<and> \<not> y \<le> x" by (auto simp: less_eq_rank_def less_rank_def)
  show "x \<le> x" by (simp add: less_eq_rank_def)
  show "x \<le> y \<Longrightarrow> y \<le> z \<Longrightarrow> x \<le> z" by (simp add: less_eq_rank_def)
  show "x \<le> y \<Longrightarrow> y \<le> x \<Longrightarrow> x = y" by (simp add: less_eq_rank_def inj)
  show "x \<le> y \<or> y \<le> x" by (auto simp: less_eq_rank_def)
qed

end

text \<open>The symbol tables of spec section 4.1, in the order of \<open>values\<close> and \<open>suites\<close>.\<close>

definition all_ranks :: "rank list" where
  "all_ranks = [Two, Three, Four, Five, Six, Seven, Eight, Nine, Ten, Jack, Queen, King, Ace]"

definition all_suits :: "suit list" where
  "all_suits = [Spades, Hearts, Diamonds, Clubs]"

definition rank_of_char :: "char \<Rightarrow> rank option" where
  "rank_of_char c = map_of (zip rank_symbols all_ranks) c"

definition suit_of_char :: "char \<Rightarrow> suit option" where
  "suit_of_char c = map_of (zip suit_symbols all_suits) c"

text \<open>Printing a card back to its token (the round trip of spec section 8).\<close>

fun rank_char :: "rank \<Rightarrow> char" where
  "rank_char Two = CHR ''2''" | "rank_char Three = CHR ''3''" | "rank_char Four = CHR ''4''"
| "rank_char Five = CHR ''5''" | "rank_char Six = CHR ''6''" | "rank_char Seven = CHR ''7''"
| "rank_char Eight = CHR ''8''" | "rank_char Nine = CHR ''9''" | "rank_char Ten = CHR ''T''"
| "rank_char Jack = CHR ''J''" | "rank_char Queen = CHR ''Q''" | "rank_char King = CHR ''K''"
| "rank_char Ace = CHR ''A''"

fun suit_char :: "suit \<Rightarrow> char" where
  "suit_char Spades = CHR ''S''" | "suit_char Hearts = CHR ''H''"
| "suit_char Diamonds = CHR ''D''" | "suit_char Clubs = CHR ''C''"

definition card_token :: "card \<Rightarrow> string" where
  "card_token c = [rank_char (fst c), suit_char (snd c)]"

definition show_hand :: "card list \<Rightarrow> string" where
  "show_hand cs = js_join (map card_token cs)"

section \<open>Parsing (spec 4.1, 4.2)\<close>

datatype parse_error = InvalidCard string | InvalidHandSize | InvalidHand

text \<open>A card token is exactly two characters, a rank symbol and a suit symbol.\<close>

fun parse_card :: "string \<Rightarrow> card option" where
  "parse_card [r, s] =
     (case (rank_of_char r, suit_of_char s) of
        (Some r', Some s') \<Rightarrow> Some (r', s')
      | _ \<Rightarrow> None)"
| "parse_card _ = None"

fun parse_cards :: "string list \<Rightarrow> parse_error + card list" where
  "parse_cards [] = Inr []"
| "parse_cards (t # ts) =
     (case parse_card t of
        None \<Rightarrow> Inl (InvalidCard t)
      | Some c \<Rightarrow> (case parse_cards ts of Inl e \<Rightarrow> Inl e | Inr cs \<Rightarrow> Inr (c # cs)))"

definition parse_hand :: "string \<Rightarrow> parse_error + card list" where
  "parse_hand h =
     (let toks = js_split h in
      if length toks \<noteq> 5 then Inl InvalidHandSize
      else (case parse_cards toks of
              Inl e \<Rightarrow> Inl e
            | Inr cs \<Rightarrow>
                if list_ex (\<lambda>c. count_list (map fst cs) (fst c) = 5) cs then Inl InvalidHand
                else Inr cs))"

section \<open>Reading the source's hand as cards\<close>

text \<open>
  The cards the source sees in a hand: the rank symbol \<open>getHandValues\<close> reads and the
  suit symbol \<open>getHandSuits\<close> reads from each token, when both are symbols.
\<close>

fun card_of_js :: "js_char \<Rightarrow> js_char \<Rightarrow> card option" where
  "card_of_js (Some r) (Some s) =
     (case (rank_of_char r, suit_of_char s) of
        (Some r', Some s') \<Rightarrow> Some (r', s')
      | _ \<Rightarrow> None)"
| "card_of_js _ _ = None"

definition hand_cards :: "string \<Rightarrow> card list option" where
  "hand_cards h = those (map2 card_of_js (getHandValues h) (getHandSuits h))"

section \<open>Categories and classification (spec 4.3)\<close>

datatype category = HighCard | OnePair | TwoPair | ThreeOfAKind | Straight | Flush
  | FullHouse | FourOfAKind | StraightFlush

fun category_index :: "category \<Rightarrow> nat" where
  "category_index HighCard = 0" | "category_index OnePair = 1" | "category_index TwoPair = 2"
| "category_index ThreeOfAKind = 3" | "category_index Straight = 4" | "category_index Flush = 5"
| "category_index FullHouse = 6" | "category_index FourOfAKind = 7"
| "category_index StraightFlush = 8"

instantiation category :: linorder
begin

definition less_eq_category :: "category \<Rightarrow> category \<Rightarrow> bool" where
  "less_eq_category a b \<longleftrightarrow> category_index a \<le> category_index b"

definition less_category :: "category \<Rightarrow> category \<Rightarrow> bool" where
  "less_category a b \<longleftrightarrow> category_index a < category_index b"

instance
proof
  have inj: "category_index a = category_index b \<Longrightarrow> a = b" for a b
    by (cases a; cases b) simp_all
  fix x y z :: category
  show "x < y \<longleftrightarrow> x \<le> y \<and> \<not> y \<le> x" by (auto simp: less_eq_category_def less_category_def)
  show "x \<le> x" by (simp add: less_eq_category_def)
  show "x \<le> y \<Longrightarrow> y \<le> z \<Longrightarrow> x \<le> z" by (simp add: less_eq_category_def)
  show "x \<le> y \<Longrightarrow> y \<le> x \<Longrightarrow> x = y" by (simp add: less_eq_category_def inj)
  show "x \<le> y \<or> y \<le> x" by (auto simp: less_eq_category_def)
qed

end

definition hand_values :: "card list \<Rightarrow> int list" where
  "hand_values cs = map (\<lambda>c. rank_value (fst c)) cs"

definition is_flush :: "card list \<Rightarrow> bool" where
  "is_flush cs \<longleftrightarrow> list_all (\<lambda>c. snd c = snd (hd cs)) cs"

definition ace_low :: "int list \<Rightarrow> bool" where
  "ace_low vs \<longleftrightarrow> sort vs = [2, 3, 4, 5, 14]"

definition is_straight :: "int list \<Rightarrow> bool" where
  "is_straight vs \<longleftrightarrow> (distinct vs \<and> Max (set vs) - Min (set vs) = 4) \<or> ace_low vs"

definition straight_high :: "int list \<Rightarrow> int" where
  "straight_high vs = (if ace_low vs then 5 else Max (set vs))"

text \<open>
  The rank-count groups, strongest first: by count, then by value. Their counts decide the
  category and their values are the tie-break key of the grouped categories.
\<close>

definition groups :: "int list \<Rightarrow> (nat \<times> int) list" where
  "groups vs = rev (sort (map (\<lambda>v. (count_list vs v, v)) (remdups vs)))"

definition classify :: "card list \<Rightarrow> category \<times> int list" where
  "classify cs =
     (let vs = hand_values cs; g = groups vs; counts = map fst g; key = map snd g in
      if is_straight vs \<and> is_flush cs then (StraightFlush, [straight_high vs])
      else if counts = [4, 1] then (FourOfAKind, key)
      else if counts = [3, 2] then (FullHouse, key)
      else if is_flush cs then (Flush, rev (sort vs))
      else if is_straight vs then (Straight, [straight_high vs])
      else if counts = [3, 1, 1] then (ThreeOfAKind, key)
      else if counts = [2, 2, 1] then (TwoPair, key)
      else if counts = [2, 1, 1, 1] then (OnePair, key)
      else (HighCard, rev (sort vs)))"

section \<open>Comparison (spec 4.4)\<close>

text \<open>
  Category first, then the tie-break key lexicographically: the lexicographic order of
  \<open>category \<times> int list\<close> (HOL-Library.Product_Lexorder and List_Lexorder).
\<close>

definition compare_hands :: "card list \<Rightarrow> card list \<Rightarrow> int" where
  "compare_hands a b =
     (let x = classify a; y = classify b in if x < y then -1 else if x = y then 0 else 1)"

definition compare_poker_hands :: "string \<Rightarrow> string \<Rightarrow> parse_error + int" where
  "compare_poker_hands handOne handTwo =
     (case parse_hand handOne of
        Inl e \<Rightarrow> Inl e
      | Inr a \<Rightarrow> (case parse_hand handTwo of Inl e \<Rightarrow> Inl e | Inr b \<Rightarrow> Inr (compare_hands a b)))"

section \<open>Lemmas\<close>

subsection \<open>Symbol tables\<close>

lemma rank_of_char_rank_char [simp]: "rank_of_char (rank_char r) = Some r"
  by (cases r) (simp_all add: rank_of_char_def all_ranks_def)

lemma suit_of_char_suit_char [simp]: "suit_of_char (suit_char s) = Some s"
  by (cases s) (simp_all add: suit_of_char_def all_suits_def)

lemma rank_of_char_Some: "rank_of_char c = Some r \<Longrightarrow> c = rank_char r"
  by (auto simp: rank_of_char_def all_ranks_def split: if_splits)

lemma suit_of_char_Some: "suit_of_char c = Some s \<Longrightarrow> c = suit_char s"
  by (auto simp: suit_of_char_def all_suits_def split: if_splits)

lemma rank_of_char_None: "rank_of_char c = None \<longleftrightarrow> c \<notin> set rank_symbols"
  by (auto simp: rank_of_char_def all_ranks_def)

lemma suit_of_char_None: "suit_of_char c = None \<longleftrightarrow> c \<notin> set suit_symbols"
  by (auto simp: suit_of_char_def all_suits_def)

lemma rank_char_inj: "rank_char r = rank_char r' \<longleftrightarrow> r = r'"
  by (metis option.inject rank_of_char_rank_char)

lemma suit_char_inj: "suit_char s = suit_char s' \<longleftrightarrow> s = s'"
  by (metis option.inject suit_of_char_suit_char)

lemma rank_char_symbol: "rank_char r \<in> set rank_symbols"
  by (cases r) simp_all

lemma suit_char_symbol: "suit_char s \<in> set suit_symbols"
  by (cases s) simp_all

lemma getHandValuesNumericValue_rank_char: "getHandValuesNumericValue (Some (rank_char r)) = Some (rank_value r)"
  by (cases r) (simp_all add: getHandValuesNumericValue_def js_is_digit_def)

subsection \<open>Parsing and the abstraction\<close>

lemma value_counts_inj: "inj f \<Longrightarrow> value_counts (map f xs) = value_counts xs"
proof -
  assume inj: "inj f"
  have "map (\<lambda>x. count_list (map f xs) (f x)) (remdups xs) = map (count_list xs) (remdups xs)"
    by (simp add: count_list_map_conv [OF inj])
  then show ?thesis by (simp only: value_counts_def remdups_map_inj [OF inj] map_map comp_def)
qed

lemma card_of_js_Some:
  "card_of_js x y = Some c \<longleftrightarrow> x = Some (rank_char (fst c)) \<and> y = Some (suit_char (snd c))"
proof (cases "\<exists>a b. x = Some a \<and> y = Some b")
  case True
  then obtain a b where x: "x = Some a" and y: "y = Some b" by blast
  show ?thesis
    by (cases c) (auto simp: x y split: option.splits dest: rank_of_char_Some suit_of_char_Some)
next
  case False
  then show ?thesis by (cases x; cases y) auto
qed

lemma map2_card_of_js:
  "length xs = length ys \<Longrightarrow> map2 card_of_js xs ys = map Some cs \<longleftrightarrow>
     xs = map (\<lambda>c. Some (rank_char (fst c))) cs \<and> ys = map (\<lambda>c. Some (suit_char (snd c))) cs"
proof (induction xs arbitrary: ys cs)
  case Nil
  then show ?case by auto
next
  case (Cons x xs)
  then obtain y ys' where ys: "ys = y # ys'" and len: "length xs = length ys'" by (cases ys) auto
  show ?case
  proof (cases cs)
    case Nil
    then show ?thesis by (simp add: ys)
  next
    case (Cons c cs')
    then show ?thesis using Cons.IH [OF len] by (auto simp: ys card_of_js_Some)
  qed
qed

lemma hand_cards_Some:
  "hand_cards h = Some cs \<longleftrightarrow>
     getHandValues h = map (\<lambda>c. Some (rank_char (fst c))) cs
     \<and> getHandSuits h = map (\<lambda>c. Some (suit_char (snd c))) cs"
  by (simp add: hand_cards_def those_eq_Some map2_card_of_js)

lemma parse_card_Some: "parse_card t = Some c \<longleftrightarrow> t = card_token c"
proof
  assume "parse_card t = Some c"
  then show "t = card_token c"
    by (cases t rule: parse_card.cases)
       (auto simp: card_token_def split: option.splits dest: rank_of_char_Some suit_of_char_Some)
next
  assume "t = card_token c"
  then show "parse_card t = Some c" by (cases c) (simp add: card_token_def)
qed

lemma parse_cards_Inr: "parse_cards ts = Inr cs \<longleftrightarrow> ts = map card_token cs"
proof (induction ts arbitrary: cs)
  case Nil
  then show ?case by auto
next
  case (Cons t ts)
  show ?case
  proof (cases "parse_card t")
    case None
    then have "t \<noteq> card_token c" for c by (metis option.distinct(1) parse_card_Some)
    with None show ?thesis by (cases cs) auto
  next
    case (Some c)
    then have t: "t = card_token c" by (simp only: parse_card_Some)
    show ?thesis
    proof (cases cs)
      case Nil
      with Some show ?thesis by (auto split: sum.splits)
    next
      case (Cons c' cs')
      have "card_token c = card_token c' \<longleftrightarrow> c = c'"
        by (metis option.inject parse_card_Some)
      with Some Cons Cons.IH [of cs'] t show ?thesis by (auto split: sum.splits)
    qed
  qed
qed

lemma parse_cards_Inl: "(\<forall>cs. parse_cards ts \<noteq> Inr cs) \<longleftrightarrow> (\<exists>t \<in> set ts. parse_card t = None)"
proof (induction ts)
  case Nil
  then show ?case by simp
next
  case (Cons t ts)
  then show ?case by (cases "parse_card t") (auto split: sum.splits)
qed

lemma card_token_ok: "token_ok (card_token c)"
proof -
  have "rank_char (fst c) \<in> set rank_symbols" and "suit_char (snd c) \<in> set suit_symbols"
    by (rule rank_char_symbol, rule suit_char_symbol)
  then show ?thesis unfolding token_ok_iff card_token_def by blast
qed

subsection \<open>The source's validation against the specification's parser\<close>

lemma rank_symbol_char: "c \<in> set rank_symbols \<Longrightarrow> \<exists>r. c = rank_char r"
  by (metis not_None_eq rank_of_char_None rank_of_char_Some)

lemma suit_symbol_char: "c \<in> set suit_symbols \<Longrightarrow> \<exists>s. c = suit_char s"
  by (metis not_None_eq suit_of_char_None suit_of_char_Some)

lemma token_ok_card:
  "token_ok t \<Longrightarrow> \<exists>c. js_index t 0 = Some (rank_char (fst c)) \<and> js_index t 1 = Some (suit_char (snd c))"
proof -
  assume ok: "token_ok t"
  have i: "js_index t 0 = Some (t ! 0) \<and> t ! 0 \<in> set rank_symbols
    \<and> js_index t 1 = Some (t ! 1) \<and> t ! 1 \<in> set suit_symbols"
    by (rule token_ok_index [OF ok])
  obtain r where "t ! 0 = rank_char r" using i rank_symbol_char by blast
  moreover obtain s where "t ! 1 = suit_char s" using i suit_symbol_char by blast
  ultimately show ?thesis using i by (intro exI [of _ "(r, s)"]) simp
qed

lemma token_ok_two_card: "token_ok t \<Longrightarrow> length t = 2 \<Longrightarrow> \<exists>c. t = card_token c"
proof -
  assume ok: "token_ok t" and len: "length t = 2"
  from ok obtain r s u where t: "t = r # s # u" and r: "r \<in> set rank_symbols" and s: "s \<in> set suit_symbols"
    unfolding token_ok_iff by blast
  from t len have u: "u = []" by simp
  obtain r' where "r = rank_char r'" using rank_symbol_char [OF r] by blast
  moreover obtain s' where "s = suit_char s'" using suit_symbol_char [OF s] by blast
  ultimately show ?thesis using t u by (intro exI [of _ "(r', s')"]) (simp add: card_token_def)
qed

lemma tokens_cards:
  "list_all token_ok ts \<Longrightarrow> \<exists>cs. map (\<lambda>t. js_index t 0) ts = map (\<lambda>c. Some (rank_char (fst c))) cs
     \<and> map (\<lambda>t. js_index t 1) ts = map (\<lambda>c. Some (suit_char (snd c))) cs"
proof (induction ts)
  case Nil
  then show ?case by simp
next
  case (Cons t ts)
  then obtain cs where "map (\<lambda>t. js_index t 0) ts = map (\<lambda>c. Some (rank_char (fst c))) cs"
    and "map (\<lambda>t. js_index t 1) ts = map (\<lambda>c. Some (suit_char (snd c))) cs" by auto
  moreover have "token_ok t" using Cons.prems by simp
  then obtain c where "js_index t 0 = Some (rank_char (fst c))" and "js_index t 1 = Some (suit_char (snd c))"
    using token_ok_card by blast
  ultimately show ?case by (intro exI [of _ "c # cs"]) simp
qed

lemma tokens_two_cards:
  "list_all (\<lambda>t. token_ok t \<and> length t = 2) ts \<Longrightarrow> \<exists>cs. ts = map card_token cs"
proof (induction ts)
  case Nil
  then show ?case by simp
next
  case (Cons t ts)
  then obtain cs where "ts = map card_token cs" by auto
  moreover have "token_ok t" and "length t = 2" using Cons.prems by simp_all
  then obtain c where "t = card_token c" using token_ok_two_card by blast
  ultimately show ?case by (intro exI [of _ "c # cs"]) simp
qed

lemma inj_rank_js: "inj (\<lambda>r. Some (rank_char r))"
  by (rule injI) (simp add: rank_char_inj)

lemma count_transfer:
  "list_all (\<lambda>v. count_list (map (\<lambda>c. Some (rank_char (fst c))) cs) v \<noteq> 5) (map (\<lambda>c. Some (rank_char (fst c))) cs)
   \<longleftrightarrow> list_all (\<lambda>c. count_list (map fst cs) (fst c) \<noteq> 5) cs"
proof -
  have "count_list (map (\<lambda>c. Some (rank_char (fst c))) cs) (Some (rank_char r)) = count_list (map fst cs) r" for r
    using count_list_map_conv [OF inj_rank_js, of "map fst cs" r] by (simp add: comp_def)
  then show ?thesis by (simp add: list_all_iff)
qed

lemma inj_card_token: "inj card_token"
  by (rule injI) (metis option.inject parse_card_Some)

lemma map_card_token_eq [simp]: "map card_token xs = map card_token ys \<longleftrightarrow> xs = ys"
  by (rule inj_map_eq_map [OF inj_card_token])

lemma parse_cards_map_token [simp]: "parse_cards (map card_token cs) = Inr cs"
  by (simp add: parse_cards_Inr)

lemma parse_hand_Inr:
  "parse_hand h = Inr cs \<longleftrightarrow>
     js_split h = map card_token cs \<and> length cs = 5 \<and> list_all (\<lambda>c. count_list (map fst cs) (fst c) \<noteq> 5) cs"
  by (auto simp: parse_hand_def parse_cards_Inr list_ex_iff list_all_iff Let_def split: sum.splits)

lemma hand_cards_tokens: "js_split h = map card_token cs \<Longrightarrow> hand_cards h = Some cs"
  by (simp add: hand_cards_Some getHandValues_def getHandSuits_def js_index_def card_token_def)

lemma parse_hand_refines_valid:
  assumes "parse_hand h = Inr cs"
  shows "isValidHand h = Inr True \<and> hand_cards h = Some cs"
proof -
  from assms have toks: "js_split h = map card_token cs" and len: "length cs = 5"
    and cnt: "list_all (\<lambda>c. count_list (map fst cs) (fst c) \<noteq> 5) cs"
    by (simp_all add: parse_hand_Inr)
  have hc: "hand_cards h = Some cs" using toks by (rule hand_cards_tokens)
  then have vs: "getHandValues h = map (\<lambda>c. Some (rank_char (fst c))) cs" by (simp add: hand_cards_Some)
  have "list_all token_ok (js_split h)" by (simp add: toks list_all_iff card_token_ok)
  with len cnt vs toks have "isValidHand h = Inr True"
    by (simp add: isValidHand_True_iff count_transfer)
  with hc show ?thesis by simp
qed

lemma valid_hand_cards:
  assumes "isValidHand h = Inr True"
  shows "\<exists>cs. hand_cards h = Some cs \<and> length cs = 5"
proof -
  from assms have "list_all token_ok (js_split h)" and len: "length (js_split h) = 5"
    by (simp_all add: isValidHand_True_iff)
  then obtain cs where "getHandValues h = map (\<lambda>c. Some (rank_char (fst c))) cs"
    and "getHandSuits h = map (\<lambda>c. Some (suit_char (snd c))) cs"
    using tokens_cards by (auto simp: getHandValues_def getHandSuits_def)
  moreover then have "length cs = 5" using len arg_cong [of _ _ length] by (metis length_getHandValues length_map)
  ultimately show ?thesis by (auto simp: hand_cards_Some)
qed

lemma isValidHand_two_char_iff:
  assumes "list_all (\<lambda>t. length t = 2) (js_split h)"
  shows "isValidHand h = Inr True \<longleftrightarrow> (\<exists>cs. parse_hand h = Inr cs)"
proof
  assume v: "isValidHand h = Inr True"
  then have ok: "list_all token_ok (js_split h)" and len: "length (js_split h) = 5"
    and cnt: "list_all (\<lambda>v. count_list (getHandValues h) v \<noteq> 5) (getHandValues h)"
    by (simp_all add: isValidHand_True_iff)
  from ok assms have "list_all (\<lambda>t. token_ok t \<and> length t = 2) (js_split h)"
    by (simp add: list_all_iff)
  then obtain cs where toks: "js_split h = map card_token cs"
    using tokens_two_cards by blast
  then have "getHandValues h = map (\<lambda>c. Some (rank_char (fst c))) cs"
    using hand_cards_tokens hand_cards_Some by blast
  with cnt have "list_all (\<lambda>c. count_list (map fst cs) (fst c) \<noteq> 5) cs" by (simp add: count_transfer)
  moreover have "length cs = 5" using len toks by simp
  ultimately show "\<exists>cs. parse_hand h = Inr cs" using toks by (auto simp: parse_hand_Inr)
next
  assume "\<exists>cs. parse_hand h = Inr cs"
  then show "isValidHand h = Inr True" using parse_hand_refines_valid by blast
qed

subsection \<open>The source's queries against the specification's predicates\<close>

lemma hand_cards_values:
  "hand_cards h = Some cs \<Longrightarrow> getHandValues h = map (\<lambda>r. Some (rank_char r)) (map fst cs)"
  by (simp add: hand_cards_Some)

lemma hand_cards_length: "hand_cards h = Some cs \<Longrightarrow> length cs = length (js_split h)"
  by (metis hand_cards_values length_getHandValues length_map)

lemma hand_cards_numeric:
  "hand_cards h = Some cs \<Longrightarrow> map getHandValuesNumericValue (getHandValues h) = map Some (hand_values cs)"
  by (simp add: hand_cards_Some hand_values_def getHandValuesNumericValue_rank_char)

lemma ace_low_span: "ace_low vs \<Longrightarrow> Max (set vs) - Min (set vs) = 12"
proof -
  assume "ace_low vs"
  then have "set vs = {2, 3, 4, 5, 14}" by (metis ace_low_def set_sort list.set(1) list.set(2))
  then show ?thesis by simp
qed

lemma sort_mset_eq: "mset xs = mset ys \<Longrightarrow> sort xs = sort ys"
  by (rule properties_for_sort) simp_all

lemma groups_mset: "mset vs = mset ws \<Longrightarrow> groups vs = groups ws"
proof -
  assume eq: "mset vs = mset ws"
  then have c: "count_list vs = count_list ws" by (metis count_mset ext)
  have "mset (remdups vs) = mset (remdups ws)" by (rule mset_remdups_eq [OF mset_eq_set_eq [OF eq]])
  then have "mset (map (\<lambda>v. (count_list ws v, v)) (remdups vs)) = mset (map (\<lambda>v. (count_list ws v, v)) (remdups ws))"
    by (simp only: mset_map)
  then have "sort (map (\<lambda>v. (count_list ws v, v)) (remdups vs)) = sort (map (\<lambda>v. (count_list ws v, v)) (remdups ws))"
    by (rule sort_mset_eq)
  then show ?thesis by (simp only: groups_def c)
qed

lemma straight_parts_mset:
  assumes "mset vs = mset ws"
  shows "is_straight vs = is_straight ws \<and> ace_low vs = ace_low ws \<and> straight_high vs = straight_high ws
    \<and> sort vs = sort ws"
proof -
  have s: "sort vs = sort ws" using assms by (rule sort_mset_eq)
  then have "set vs = set ws" and "distinct vs = distinct ws" by (metis set_sort, metis distinct_sort)
  with s show ?thesis by (simp add: is_straight_def ace_low_def straight_high_def)
qed

lemma is_flush_set: "is_flush cs \<longleftrightarrow> (\<forall>c \<in> set cs. \<forall>d \<in> set cs. snd c = snd d)"
proof (cases cs)
  case Nil
  then show ?thesis by (simp add: is_flush_def)
next
  case (Cons c0 cs')
  then have c0: "c0 \<in> set cs" and hd: "hd cs = c0" by simp_all
  have "is_flush cs \<longleftrightarrow> (\<forall>c \<in> set cs. snd c = snd c0)" by (simp add: is_flush_def list_all_iff hd)
  also have "\<dots> \<longleftrightarrow> (\<forall>c \<in> set cs. \<forall>d \<in> set cs. snd c = snd d)"
  proof
    assume a: "\<forall>c \<in> set cs. snd c = snd c0"
    show "\<forall>c \<in> set cs. \<forall>d \<in> set cs. snd c = snd d"
    proof (intro ballI)
      fix c d assume "c \<in> set cs" "d \<in> set cs"
      with a have "snd c = snd c0" "snd d = snd c0" by blast+
      then show "snd c = snd d" by simp
    qed
  next
    assume "\<forall>c \<in> set cs. \<forall>d \<in> set cs. snd c = snd d"
    with c0 show "\<forall>c \<in> set cs. snd c = snd c0" by blast
  qed
  finally show ?thesis .
qed

lemma classify_mset:
  assumes "mset a = mset b"
  shows "classify a = classify b"
proof -
  have v: "mset (hand_values a) = mset (hand_values b)" using assms by (simp add: hand_values_def)
  have f: "is_flush a = is_flush b" using mset_eq_set_eq [OF assms] by (simp add: is_flush_set)
  show ?thesis
    using groups_mset [OF v] straight_parts_mset [OF v] f by (simp add: classify_def Let_def)
qed

lemma parse_card_token_the: "t \<in> card_token ` A \<Longrightarrow> card_token (the (parse_card t)) = t"
  by (auto simp: parse_card_Some [THEN iffD2])

lemma parse_hand_perm:
  assumes p: "parse_hand h = Inr a" and m: "mset (js_split h') = mset (js_split h)"
  shows "\<exists>a'. parse_hand h' = Inr a' \<and> mset a' = mset a"
proof -
  let ?a' = "map (\<lambda>t. the (parse_card t)) (js_split h')"
  from p have toks: "js_split h = map card_token a" and len: "length a = 5"
    and cnt: "list_all (\<lambda>c. count_list (map fst a) (fst c) \<noteq> 5) a"
    by (simp_all add: parse_hand_Inr)
  have set': "set (js_split h') = set (map card_token a)" using mset_eq_set_eq [OF m] toks by simp
  have "map (\<lambda>t. card_token (the (parse_card t))) (js_split h') = js_split h'"
    by (rule map_idI) (metis set' set_map parse_card_token_the)
  then have toks': "js_split h' = map card_token ?a'" by (simp add: comp_def)
  have "mset ?a' = image_mset (\<lambda>t. the (parse_card t)) (mset (map card_token a))"
    using m toks by simp
  also have "\<dots> = mset a" by (simp add: parse_card_Some [THEN iffD2] multiset.map_comp comp_def)
  finally have ma: "mset ?a' = mset a" .
  have "length ?a' = 5" using arg_cong [OF ma, of size] len by simp
  moreover have "count_list (map fst ?a') = count_list (map fst a)"
    using arg_cong [OF ma, of "image_mset fst"] by (metis count_mset ext mset_map)
  moreover have "set ?a' = set a" using mset_eq_set_eq [OF ma] .
  ultimately have "parse_hand h' = Inr ?a'"
    using cnt toks' by (simp add: parse_hand_Inr list_all_iff)
  with ma show ?thesis by blast
qed

subsection \<open>Printing and evaluation\<close>


lemma show_hand_parse: "parse_hand h = Inr cs \<Longrightarrow> show_hand cs = h"
  by (metis js_join_split parse_hand_Inr show_hand_def)

text \<open>The rules that evaluate the model on a concrete hand string.\<close>

lemmas hand_eval_simps = getHandValues_def getHandSuits_def js_index_def rank_of_char_def
  suit_of_char_def all_ranks_def all_suits_def hand_cards_def parse_hand_def Let_def

lemmas classify_eval_simps = compare_hands_def classify_def hand_values_def groups_def is_flush_def
  is_straight_def ace_low_def straight_high_def less_eq_category_def less_category_def

section \<open>Properties\<close>

subsection \<open>Validation against the specification's parser\<close>

text \<open>C2: Refinement of the specification's parser by isValidHand: every hand the parser of
  spec 4.2 accepts, isValidHand accepts, and the source reads the same cards from it; on hands
  whose tokens are all two characters long, the two accept exactly the same hands.\<close>

theorem isValidHand_refines_parse_hand:
  "(parse_hand h = Inr cs \<longrightarrow> isValidHand h = Inr True \<and> hand_cards h = Some cs) \<and>
   (list_all (\<lambda>t. length t = 2) (js_split h) \<longrightarrow>
      (isValidHand h = Inr True \<longleftrightarrow> (\<exists>cs. parse_hand h = Inr cs)))"
  using parse_hand_refines_valid isValidHand_two_char_iff by blast

theorem isValidHand_refines_parse_hand_witness:
  "parse_hand ''2H 3H 4H 5H 6H'' = Inr [(Two, Hearts), (Three, Hearts), (Four, Hearts), (Five, Hearts), (Six, Hearts)] \<and> isValidHand ''2H 3H 4H 5H 6H'' = Inr True \<and> hand_cards ''2H 3H 4H 5H 6H'' = Some [(Two, Hearts), (Three, Hearts), (Four, Hearts), (Five, Hearts), (Six, Hearts)]
   \<and> list_all (\<lambda>t. length t = 2) (js_split ''2H 3H 4H 5H 6H'')"
proof -
  have p: "parse_hand ''2H 3H 4H 5H 6H'' = Inr [(Two, Hearts), (Three, Hearts), (Four, Hearts), (Five, Hearts), (Six, Hearts)]" by (simp add: hand_eval_simps)
  have l: "list_all (\<lambda>t. length t = 2) (js_split ''2H 3H 4H 5H 6H'')" by simp
  show ?thesis using isValidHand_refines_parse_hand [of "''2H 3H 4H 5H 6H''" "[(Two, Hearts), (Three, Hearts), (Four, Hearts), (Five, Hearts), (Six, Hearts)]"] p l by blast
qed



subsection \<open>Round trips\<close>

text \<open>C13: A hand that isValidHand accepts and whose tokens are two characters long is
  reproduced exactly by printing the cards the source reads from it.\<close>

theorem hand_roundtrip:
  assumes "isValidHand h = Inr True" and "list_all (\<lambda>t. length t = 2) (js_split h)"
  shows "\<exists>cs. hand_cards h = Some cs \<and> show_hand cs = h"
proof -
  obtain cs where p: "parse_hand h = Inr cs" using isValidHand_two_char_iff [OF assms(2)] assms(1) by blast
  then show ?thesis using parse_hand_refines_valid [OF p] show_hand_parse [OF p] by blast
qed

theorem hand_roundtrip_witness:
  "isValidHand ''2H 3H 4H 5H 6H'' = Inr True \<and> list_all (\<lambda>t. length t = 2) (js_split ''2H 3H 4H 5H 6H'')
   \<and> (\<exists>cs. hand_cards ''2H 3H 4H 5H 6H'' = Some cs \<and> show_hand cs = ''2H 3H 4H 5H 6H'')"
proof -
  have v: "isValidHand ''2H 3H 4H 5H 6H'' = Inr True" by (simp add: isValidHand_True_iff token_ok_iff hand_eval_simps)
  have l: "list_all (\<lambda>t. length t = 2) (js_split ''2H 3H 4H 5H 6H'')" by simp
  show ?thesis using hand_roundtrip [OF v l] v l by blast
qed



subsection \<open>The queries against the specification\<close>

text \<open>C21: getHandValuesNumericValue gives each rank symbol its value 2 to 14 (spec section 8)
  and falls back to parseInt on every other character, so "0" and "1" read as 0 and 1.\<close>

theorem getHandValuesNumericValue_spec:
  "getHandValuesNumericValue (Some c) =
     (case rank_of_char c of Some r \<Rightarrow> Some (rank_value r) | None \<Rightarrow> js_parse_int (Some c))"
proof (cases "rank_of_char c")
  case None
  then have "c \<notin> set rank_symbols" by (simp add: rank_of_char_None)
  with None show ?thesis by (auto simp: getHandValuesNumericValue_def)
next
  case (Some r)
  then show ?thesis using rank_of_char_Some [OF Some] getHandValuesNumericValue_rank_char by simp
qed

text \<open>C6: Refinement: on the cards the source reads, isAFlush is the flush test of spec 4.3.\<close>

theorem isAFlush_refines:
  assumes "hand_cards h = Some cs"
  shows "isAFlush h \<longleftrightarrow> is_flush cs"
proof -
  have suits: "getHandSuits h = map (\<lambda>c. Some (suit_char (snd c))) cs" using assms by (simp add: hand_cards_Some)
  have "cs \<noteq> []" using hand_cards_length [OF assms] by auto
  then show ?thesis
    by (auto simp: isAFlush_iff suits is_flush_def list_all_iff hd_map suit_char_inj)
qed

theorem isAFlush_refines_witness:
  "hand_cards ''2H 3H 4H 5H 6H'' = Some [(Two, Hearts), (Three, Hearts), (Four, Hearts), (Five, Hearts), (Six, Hearts)] \<and> isAFlush ''2H 3H 4H 5H 6H'' \<and> is_flush [(Two, Hearts), (Three, Hearts), (Four, Hearts), (Five, Hearts), (Six, Hearts)]"
proof -
  have a: "hand_cards ''2H 3H 4H 5H 6H'' = Some [(Two, Hearts), (Three, Hearts), (Four, Hearts), (Five, Hearts), (Six, Hearts)]" by (simp add: hand_eval_simps)
  have f: "is_flush [(Two, Hearts), (Three, Hearts), (Four, Hearts), (Five, Hearts), (Six, Hearts)]" by (simp add: is_flush_def)
  show ?thesis using isAFlush_refines [OF a] a f by simp
qed

text \<open>C7: Refinement: on the cards the source reads, hasAPair holds exactly when some rank
  repeats.\<close>

theorem hasAPair_refines:
  assumes "hand_cards h = Some cs"
  shows "hasAPair h \<longleftrightarrow> \<not> distinct (map fst cs)"
  by (simp only: hasAPair_iff hand_cards_values [OF assms] distinct_map_inj [OF inj_rank_js])

theorem hasAPair_refines_witness:
  "hand_cards ''2H 2D 4H 5H 6H'' = Some [(Two, Hearts), (Two, Diamonds), (Four, Hearts), (Five, Hearts), (Six, Hearts)]
   \<and> hasAPair ''2H 2D 4H 5H 6H''"
proof -
  have a: "hand_cards ''2H 2D 4H 5H 6H'' = Some [(Two, Hearts), (Two, Diamonds), (Four, Hearts), (Five, Hearts), (Six, Hearts)]"
    by (simp add: hand_eval_simps)
  show ?thesis using hasAPair_refines [OF a] a by simp
qed

text \<open>C4: Refinement with a gap: on five cards the source reads, isAStraight is the straight
  test of spec 4.3 without its ace-low case.\<close>

theorem isAStraight_refines:
  assumes "hand_cards h = Some cs" and "length cs = 5"
  shows "isAStraight h \<longleftrightarrow> is_straight (hand_values cs) \<and> \<not> ace_low (hand_values cs)"
proof -
  have "isAStraight h \<longleftrightarrow> distinct (hand_values cs) \<and> Max (set (hand_values cs)) - Min (set (hand_values cs)) = 4"
    using isAStraight_numeric [OF hand_cards_numeric [OF assms(1)]] assms(2) by (simp add: hand_values_def)
  then show ?thesis using ace_low_span [of "hand_values cs"] by (auto simp: is_straight_def)
qed

theorem isAStraight_refines_witness:
  "hand_cards ''AH 2H 3C 4S 5D'' = Some [(Ace, Hearts), (Two, Hearts), (Three, Clubs), (Four, Spades), (Five, Diamonds)]
   \<and> is_straight (hand_values [(Ace, Hearts), (Two, Hearts), (Three, Clubs), (Four, Spades), (Five, Diamonds)])
   \<and> \<not> isAStraight ''AH 2H 3C 4S 5D''"
proof -
  have a: "hand_cards ''AH 2H 3C 4S 5D'' = Some [(Ace, Hearts), (Two, Hearts), (Three, Clubs), (Four, Spades), (Five, Diamonds)]"
    by (simp add: hand_eval_simps)
  have s: "is_straight (hand_values [(Ace, Hearts), (Two, Hearts), (Three, Clubs), (Four, Spades), (Five, Diamonds)])
    \<and> ace_low (hand_values [(Ace, Hearts), (Two, Hearts), (Three, Clubs), (Four, Spades), (Five, Diamonds)])"
    by (simp add: is_straight_def ace_low_def hand_values_def)
  show ?thesis using isAStraight_refines [OF a] a s by simp
qed

text \<open>C5: Refinement: on five cards the source reads, getPairSize is the pair score of the
  rank counts described in spec 4.3 (0, 2, 3, 4, 5, or 6 for four of a kind).\<close>

theorem getPairSize_refines:
  assumes "hand_cards h = Some cs" and "length cs = 5"
  shows "getPairSize h = pair_score (value_counts (map fst cs))"
proof -
  have "length (js_split h) = 5" using hand_cards_length [OF assms(1)] assms(2) by simp
  then have "getPairSize h = pair_score (value_counts (getHandValues h))" by (rule getPairSize_eq_score)
  also have "\<dots> = pair_score (value_counts (map fst cs))"
    by (simp only: hand_cards_values [OF assms(1)] value_counts_inj [OF inj_rank_js])
  finally show ?thesis .
qed

theorem getPairSize_refines_witness:
  "hand_cards ''2H 2D 2C 3H 3S'' = Some [(Two, Hearts), (Two, Diamonds), (Two, Clubs), (Three, Hearts), (Three, Spades)]
   \<and> getPairSize ''2H 2D 2C 3H 3S'' = 5"
proof -
  have a: "hand_cards ''2H 2D 2C 3H 3S'' = Some [(Two, Hearts), (Two, Diamonds), (Two, Clubs), (Three, Hearts), (Three, Spades)]"
    by (simp add: hand_eval_simps)
  have "pair_score (value_counts (map fst [(Two, Hearts), (Two, Diamonds), (Two, Clubs), (Three, Hearts), (Three, Spades)])) = 5"
    by (simp add: pair_score_def value_counts_def)
  then show ?thesis using getPairSize_refines [OF a] a by simp
qed

subsection \<open>Comparison\<close>

text \<open>C12: The order of the cards in a hand string carries no weight: reordering the tokens of a
  valid hand changes no comparison it takes part in.\<close>

theorem compare_poker_hands_token_order:
  assumes "parse_hand h = Inr a" and "mset (js_split h') = mset (js_split h)"
  shows "compare_poker_hands h' g = compare_poker_hands h g \<and> compare_poker_hands g h' = compare_poker_hands g h"
proof -
  obtain a' where p': "parse_hand h' = Inr a'" and ma: "mset a' = mset a"
    using parse_hand_perm [OF assms] by blast
  have "classify a' = classify a" by (rule classify_mset [OF ma])
  then show ?thesis using assms(1) p'
    by (simp add: compare_poker_hands_def compare_hands_def split: sum.splits)
qed

theorem compare_poker_hands_token_order_witness:
  "parse_hand ''2H 3H 4H 5H 6H'' = Inr [(Two, Hearts), (Three, Hearts), (Four, Hearts), (Five, Hearts), (Six, Hearts)] \<and> mset (js_split ''6H 5H 4H 3H 2H'') = mset (js_split ''2H 3H 4H 5H 6H'')
   \<and> compare_poker_hands ''6H 5H 4H 3H 2H'' ''AS AD AC AH JD'' = compare_poker_hands ''2H 3H 4H 5H 6H'' ''AS AD AC AH JD''"
proof -
  have a: "parse_hand ''2H 3H 4H 5H 6H'' = Inr [(Two, Hearts), (Three, Hearts), (Four, Hearts), (Five, Hearts), (Six, Hearts)]" by (simp add: hand_eval_simps)
  have m: "mset (js_split ''6H 5H 4H 3H 2H'') = mset (js_split ''2H 3H 4H 5H 6H'')" by simp
  show ?thesis using compare_poker_hands_token_order [OF a m] a m by blast
qed

end
