(* ===== verification/Query_Classifier.thy ===== *)
theory Query_Classifier
  imports Poker_Spec
begin

text \<open>
  The source has no classifier, but its queries are the building blocks of one: spec 4.3
  describes the category cascade in terms of a flush test, a straight test and the rank
  counts, and src/index.ts exports \<open>isAFlush\<close>, \<open>isAStraight\<close> and
  \<open>getPairSize\<close>. This theory composes the three queries into the cascade
  (\<open>query_category\<close>) and proves that on every valid hand it gives the category of the
  specification's classifier \<open>classify\<close>, except on the ace-low straight, where
  \<open>isAStraight\<close> fails (spec 4.3 calls it a straight).
\<close>

section \<open>The cascade over the source's queries\<close>

text \<open>
  The pair size identifies the rank-count shape of five cards (6 four of a kind, 5 full
  house, 3 three of a kind, 4 two pairs, 2 one pair, 0 none); the cascade is the order of
  spec 4.3.
\<close>

definition query_category :: "string \<Rightarrow> category" where
  "query_category h =
     (let pairSize = getPairSize h in
      if isAFlush h \<and> isAStraight h then StraightFlush
      else if pairSize = 6 then FourOfAKind
      else if pairSize = 5 then FullHouse
      else if isAFlush h then Flush
      else if isAStraight h then Straight
      else if pairSize = 3 then ThreeOfAKind
      else if pairSize = 4 then TwoPair
      else if pairSize = 2 then OnePair
      else HighCard)"

section \<open>Lemmas\<close>

text \<open>The counts of \<open>groups\<close> are the sorted counts, strongest first.\<close>

lemma groups_counts: "map fst (groups vs) = rev (sort (map (count_list vs) (remdups vs)))"
proof -
  let ?ps = "map (\<lambda>v. (count_list vs v, v)) (remdups vs)"
  have "sort (map (count_list vs) (remdups vs)) = map fst (sort ?ps)"
  proof (rule properties_for_sort)
    have "mset (map fst (sort ?ps)) = mset (map fst ?ps)" by (simp only: mset_map mset_sort)
    also have "map fst ?ps = map (count_list vs) (remdups vs)" by simp
    finally show "mset (map fst (sort ?ps)) = mset (map (count_list vs) (remdups vs))" .
    show "sorted (map fst (sort ?ps))" by (simp add: sorted_map_fst)
  qed
  then show ?thesis by (simp add: groups_def rev_map [symmetric])
qed

lemma inj_rank_value: "inj rank_value"
  by (rule injI) (metis less_eq_rank_def order_antisym order_refl)

text \<open>
  On five cards with no value five times, the category of \<open>classify\<close> is a function of
  the straight and flush tests and the pair score.
\<close>

lemma classify_counts:
  assumes len: "length cs = 5"
    and no5: "\<forall>v \<in> set (hand_values cs). count_list (hand_values cs) v \<noteq> 5"
  shows "fst (classify cs) =
    (let vs = hand_values cs; p = pair_score (value_counts vs) in
     if is_straight vs \<and> is_flush cs then StraightFlush
     else if p = 6 then FourOfAKind else if p = 5 then FullHouse
     else if is_flush cs then Flush else if is_straight vs then Straight
     else if p = 3 then ThreeOfAKind else if p = 4 then TwoPair
     else if p = 2 then OnePair else HighCard)"
proof -
  let ?vs = "hand_values cs"
  obtain ys where cnt: "map fst (groups ?vs) = rev ys" and vc: "value_counts ?vs = mset ys"
    and ys: "ys \<in> {[1, 4], [2, 3], [1, 1, 3], [1, 2, 2], [1, 1, 1, 2], [1, 1, 1, 1, 1]}"
  proof -
    let ?ys = "sort (map (count_list ?vs) (remdups ?vs))"
    have "?ys \<in> {[5], [1, 4], [2, 3], [1, 1, 3], [1, 2, 2], [1, 1, 1, 2], [1, 1, 1, 1, 1]}"
      by (rule count_shape_five) (simp add: len hand_values_def)
    moreover have "?ys \<noteq> [5]"
    proof
      assume "?ys = [5]"
      then have "5 \<in> set ?ys" by simp
      with no5 show False by auto
    qed
    ultimately have "?ys \<in> {[1, 4], [2, 3], [1, 1, 3], [1, 2, 2], [1, 1, 1, 2], [1, 1, 1, 1, 1]}" by blast
    moreover have "value_counts ?vs = mset ?ys" by (simp add: value_counts_def)
    ultimately show ?thesis using groups_counts that by blast
  qed
  from ys consider "ys = [1, 4]" | "ys = [2, 3]" | "ys = [1, 1, 3]" | "ys = [1, 2, 2]"
    | "ys = [1, 1, 1, 2]" | "ys = [1, 1, 1, 1, 1]" by blast
  then show ?thesis
    by cases (simp_all add: classify_def Let_def cnt vc pair_score_def)
qed

lemma ace_low_distinct: "ace_low vs \<Longrightarrow> distinct vs"
proof -
  assume "ace_low vs"
  then have "distinct (sort vs)" by (simp add: ace_low_def)
  then show "distinct vs" by simp
qed

lemma hand_values_map: "hand_values cs = map rank_value (map fst cs)"
  by (simp add: hand_values_def)

lemma source_queries_five:
  assumes hc: "hand_cards h = Some cs" and len: "length cs = 5"
  shows "isAFlush h = is_flush cs
    \<and> isAStraight h = (is_straight (hand_values cs) \<and> \<not> ace_low (hand_values cs))
    \<and> getPairSize h = pair_score (value_counts (hand_values cs))"
proof (intro conjI)
  have suits: "getHandSuits h = map (\<lambda>c. Some (suit_char (snd c))) cs" using hc by (simp add: hand_cards_Some)
  have "cs \<noteq> []" using len by auto
  then show "isAFlush h = is_flush cs"
    by (auto simp: isAFlush_iff suits is_flush_def list_all_iff hd_map suit_char_inj)
  have "isAStraight h \<longleftrightarrow> distinct (hand_values cs) \<and> Max (set (hand_values cs)) - Min (set (hand_values cs)) = 4"
    using isAStraight_numeric [OF hand_cards_numeric [OF hc]] len by (simp add: hand_values_def)
  then show "isAStraight h = (is_straight (hand_values cs) \<and> \<not> ace_low (hand_values cs))"
    using ace_low_span [of "hand_values cs"] by (auto simp: is_straight_def)
  have l5: "length (js_split h) = 5" using hand_cards_length [OF hc] len by simp
  have "value_counts (getHandValues h) = value_counts (hand_values cs)"
    by (simp only: hand_cards_values [OF hc] value_counts_inj [OF inj_rank_js] hand_values_map
        value_counts_inj [OF inj_rank_value])
  then show "getPairSize h = pair_score (value_counts (hand_values cs))"
    by (simp only: getPairSize_eq_score [OF l5])
qed

section \<open>Properties\<close>

text \<open>C8: On every valid hand, the category of spec 4.3 is the cascade over the source's
  isAFlush, isAStraight and getPairSize, except on the ace-low straight, which the
  specification classifies as a straight (or straight flush) and the cascade does not.\<close>

theorem classify_source_queries:
  assumes valid: "isValidHand h = Inr True" and hc: "hand_cards h = Some cs"
  shows "fst (classify cs) =
    (if ace_low (hand_values cs) then (if isAFlush h then StraightFlush else Straight)
     else query_category h)"
proof -
  have len: "length cs = 5" using hand_cards_length [OF hc] valid by (simp add: isValidHand_True_iff)
  have "\<forall>v \<in> set (getHandValues h). count_list (getHandValues h) v \<noteq> 5"
    using valid by (simp add: isValidHand_True_iff list_all_iff)
  then have "\<forall>x \<in> set (map fst cs). count_list (map fst cs) x \<noteq> 5"
    by (simp only: hand_cards_values [OF hc] count_list_inj_map [OF inj_rank_js])
  then have no5: "\<forall>v \<in> set (hand_values cs). count_list (hand_values cs) v \<noteq> 5"
    by (simp only: hand_values_map count_list_inj_map [OF inj_rank_value])
  note q = source_queries_five [OF hc len]
  show ?thesis
  proof (cases "ace_low (hand_values cs)")
    case True
    then have "is_straight (hand_values cs)" and "pair_score (value_counts (hand_values cs)) = 0"
      by (simp_all add: is_straight_def pair_score_distinct ace_low_distinct)
    with True q show ?thesis by (simp add: classify_counts [OF len no5] Let_def)
  next
    case False
    with q show ?thesis by (simp add: classify_counts [OF len no5] query_category_def Let_def)
  qed
qed

theorem classify_source_queries_witness:
  "isValidHand ''2H 2D 2C 3H 3S'' = Inr True
   \<and> hand_cards ''2H 2D 2C 3H 3S'' = Some [(Two, Hearts), (Two, Diamonds), (Two, Clubs), (Three, Hearts), (Three, Spades)]
   \<and> query_category ''2H 2D 2C 3H 3S'' = FullHouse
   \<and> isValidHand ''AH 2H 3H 4H 5H'' = Inr True
   \<and> hand_cards ''AH 2H 3H 4H 5H'' = Some [(Ace, Hearts), (Two, Hearts), (Three, Hearts), (Four, Hearts), (Five, Hearts)]
   \<and> fst (classify [(Ace, Hearts), (Two, Hearts), (Three, Hearts), (Four, Hearts), (Five, Hearts)]) = StraightFlush"
proof -
  have v1: "isValidHand ''2H 2D 2C 3H 3S'' = Inr True"
    by (simp add: isValidHand_True_iff token_ok_iff getHandValues_def js_index_def)
  have h1: "hand_cards ''2H 2D 2C 3H 3S'' = Some [(Two, Hearts), (Two, Diamonds), (Two, Clubs), (Three, Hearts), (Three, Spades)]"
    by (simp add: hand_eval_simps)
  have c1: "fst (classify [(Two, Hearts), (Two, Diamonds), (Two, Clubs), (Three, Hearts), (Three, Spades)]) = FullHouse
    \<and> \<not> ace_low (hand_values [(Two, Hearts), (Two, Diamonds), (Two, Clubs), (Three, Hearts), (Three, Spades)])"
    by (simp add: classify_eval_simps Let_def)
  have v2: "isValidHand ''AH 2H 3H 4H 5H'' = Inr True"
    by (simp add: isValidHand_True_iff token_ok_iff getHandValues_def js_index_def)
  have h2: "hand_cards ''AH 2H 3H 4H 5H'' = Some [(Ace, Hearts), (Two, Hearts), (Three, Hearts), (Four, Hearts), (Five, Hearts)]"
    by (simp add: hand_eval_simps)
  have c2: "ace_low (hand_values [(Ace, Hearts), (Two, Hearts), (Three, Hearts), (Four, Hearts), (Five, Hearts)])
    \<and> isAFlush ''AH 2H 3H 4H 5H''"
    by (simp add: ace_low_def hand_values_def isAFlush_def js_set_size_def getHandSuits_def js_index_def)
  show ?thesis
    using classify_source_queries [OF v1 h1] classify_source_queries [OF v2 h2] v1 h1 c1 v2 h2 c2 by simp
qed

end
