(* ===== verification/Spec2Isabelle.thy ===== *)
theory Spec2Isabelle
  imports Query_Classifier
begin

text \<open>
  \<^bold>\<open>Verification of the poker-hand library src/index.ts.\<close>

  \<^bold>\<open>The program.\<close> src/index.ts exports a fixture (\<^verbatim>\<open>pokerHands\<close>), two symbol
  tables (\<^verbatim>\<open>values\<close>, \<^verbatim>\<open>suites\<close>) and eleven functions over a hand given as a string
  of space-separated tokens such as \<^verbatim>\<open>"2H 3H 4H 5H 6H"\<close>. No function keeps state: each
  splits the string with \<^verbatim>\<open>split(" ")\<close> and reads the first character (the value) and the
  second character (the suit) of every token. \<^verbatim>\<open>isValidHand\<close> validates; the queries
  \<^verbatim>\<open>hasAPair\<close>, \<^verbatim>\<open>getPairSize\<close>, \<^verbatim>\<open>isAFlush\<close>, \<^verbatim>\<open>isAStraight\<close>,
  \<^verbatim>\<open>getHighCard\<close> and \<^verbatim>\<open>getLowCard\<close> do not validate and go through
  \<^verbatim>\<open>getHandValues\<close>, \<^verbatim>\<open>getHandSuits\<close> and \<^verbatim>\<open>getHandValuesNumericValue\<close>;
  \<^verbatim>\<open>comparePokerHands\<close> has an empty body. src/index.spec.ts is its Jest test suite.

  \<^bold>\<open>The library.\<close>
  \<^item> \<open>Poker_Prelude\<close>: the names of the JavaScript value types (\<open>js_char\<close> for the result of
    \<^verbatim>\<open>s[i]\<close>, \<open>None\<close> being \<^verbatim>\<open>undefined\<close>; \<open>js_num\<close> for a number, \<open>None\<close>
    being \<^verbatim>\<open>NaN\<close>; \<open>'k tally\<close> for a counting object) and generic lemmas on lists,
    multisets and sorted integer lists.
  \<^item> \<open>JS_Runtime\<close>: the runtime the program calls, each at the precision the program needs:
    \<open>js_split\<close> (\<^verbatim>\<open>split(" ")\<close>, empty tokens included), \<open>js_index\<close>,
    \<open>js_includes\<close>, \<open>js_set_size\<close>, the tally idiom \<open>js_bump\<close>/\<open>js_tally\<close> with
    insertion order, \<open>js_forin_order\<close> (for-in visits digit keys first in numeric order, then the
    others in insertion order), \<open>js_parse_int\<close>, \<open>js_sort_numeric\<close>, \<open>js_max\<close>,
    \<open>js_min\<close>. Its lemmas: split/join round trip, the tally as first-occurrence order with
    counts, for-in order a permutation.
  \<^item> \<open>Hand_Parsing\<close>: \<open>pokerHands\<close>, \<open>values_list\<close> (\<^verbatim>\<open>values\<close>), \<open>suites\<close>,
    \<open>isValidHand\<close> with its two loops (\<open>count_valid_cards\<close>, \<open>check_no_five\<close>) and
    its token test \<open>token_ok\<close>, \<open>getHandValues\<close>, \<open>getHandSuits\<close>. Errors are values:
    \<open>js_error + bool\<close>, \<open>Inl\<close> the thrown \<^verbatim>\<open>Error("Invalid hand!")\<close>.
  \<^item> \<open>Hand_Queries\<close>: \<open>hasAPair\<close>, \<open>getPairSize\<close> (loop \<open>pair_size_loop\<close> over the
    tally in for-in order), \<open>isAFlush\<close>, \<open>getHandValuesNumericValue\<close>, \<open>getHighCard\<close>,
    \<open>getLowCard\<close>, \<open>isAStraight\<close> (loop \<open>consecutive_run\<close>), \<open>comparePokerHands\<close>
    (returns \<open>Undefined\<close>). The spec's pair score \<open>pair_score\<close> of \<open>value_counts\<close>.
  \<^item> \<open>Poker_Spec\<close>: the abstract specification of spec sections 3 and 4 (ranks, suits and
    categories as datatypes with \<open>linorder\<close> instances, the parser \<open>parse_hand\<close> with its
    three error kinds, the classifier \<open>classify\<close> and the comparator
    \<open>compare_hands\<close>/\<open>compare_poker_hands\<close>, the printer \<open>show_hand\<close>) and the
    abstraction \<open>hand_cards\<close>, which reads cards from a hand string through the source's
    \<open>getHandValues\<close> and \<open>getHandSuits\<close>. Its theorems relate the source to the
    specification.
  \<^item> \<open>Query_Classifier\<close>: \<open>query_category\<close>, the category cascade of spec 4.3 written
    over the source's queries \<open>isAFlush\<close>, \<open>isAStraight\<close> and \<open>getPairSize\<close>, and its
    agreement with \<open>classify\<close> on valid hands (\<open>classify_source_queries\<close>), the ace-low
    straight apart. The pair size determines the rank-count shape because the sorted counts of five
    values are a partition of five (\<open>sorted_partitions_five\<close> in the prelude).
  \<^item> this theory: this overview. The test suite src/index.spec.ts is not replayed as theorems;
    its expectations are covered by the general properties above (the ace-low test by
    \<open>Hand_Queries.isAStraight_ace_low\<close>, which shows that test fails on the code).

  \<^bold>\<open>What is proved.\<close> isValidHand's result on every input, stated over the literal rank
  and suit symbols (\<open>isValidHand_spec\<close>), and its independence of token order; its refinement
  of the specification's parser, exact on two-character tokens, and the general form of its
  divergence on longer tokens; the round trip from an accepted hand to the cards the source reads
  and back; the refinement of isAFlush, hasAPair, getPairSize and isAStraight by the
  specification's tests on the cards the source reads, with the ace-low straight as the one gap
  (a code bug the test suite exposes); that the source's queries compose into the specification's
  classifier on valid hands except on the ace-low straight; that hasAPair and getPairSize agree on
  every string; that a straight has no pair and that its high and low cards span the number of its
  tokens; isAStraight on NaN values for every order the sort may produce; getPairSize's
  independence of token order on five tokens and its dependence on the for-in order beyond, for
  any two non-digit values; that isAFlush calls a hand without suits a flush; bounds of
  getHighCard and getLowCard on valid hands; the numeric values of the rank symbols; and that the
  specified comparator ignores the order of the tokens.

  \<^bold>\<open>Bounds and fuel.\<close> Every loop of the source runs over a finite list and is modelled by
  structural recursion (\<open>count_valid_cards\<close>, \<open>check_no_five\<close>, \<open>pair_size_loop\<close>,
  \<open>consecutive_run\<close>, \<open>js_bump\<close>), so no fuel is needed and every definition is total and
  executable. JavaScript numbers are modelled as \<open>int\<close>: the values are 0 to 14 and counts at
  most the number of tokens, far from any precision limit.

  \<^bold>\<open>Not modelled.\<close> The order in which \<^verbatim>\<open>Array.prototype.sort\<close> leaves \<^verbatim>\<open>NaN\<close>
  elements is implementation-defined; the model keeps the input order and
  \<open>Hand_Queries.isAStraight_NaN\<close> shows the result does not depend on it.
  \<^verbatim>\<open>getHandValuesNumericValue\<close> is modelled on the arguments the program passes (one
  character or \<^verbatim>\<open>undefined\<close>), not on arbitrary strings. The Jest and Babel plumbing of
  src/index.spec.ts (imports, \<^verbatim>\<open>describe\<close>, the Babel preset line) is not code of the engine.
  Math.max and Math.min of an empty list (infinities) are modelled as NaN; the program never
  spreads an empty list.
\<close>

end
